theory Spec2Isabelle
  imports Main "HOL-Library.Sublist"
begin

section \<open>The ForLoop action of launch/actions/for\_loop.py\<close>

text \<open>
  The action reads the number of iterations from a launch configuration, and returns for
  each iteration a step that pushes a frame of local variables, a step that binds the
  index, one new instance of every given (entity type, arguments) pair, and a step
  that pops the frame. The model below follows \<^verbatim>\<open>ForLoop.execute\<close>,
  \<^verbatim>\<open>ForLoop._push_locals\<close>, \<^verbatim>\<open>ForLoop._pop_locals\<close> and
  \<^verbatim>\<open>ForLoop._set_index_local\<close> statement by statement. State that Python keeps
  behind the scenes (the launch context, the logger's output, the allocation of objects)
  is passed explicitly, and every exception is a value \<open>Inl e\<close>.
\<close>

subsection \<open>Python's str and int on decimal integers\<close>

definition digit_char :: "nat \<Rightarrow> char" where
  "digit_char d = ''0123456789'' ! (d mod 10)"

fun str_nat :: "nat \<Rightarrow> string" where
  "str_nat n = (if n < 10 then [digit_char n] else str_nat (n div 10) @ [digit_char (n mod 10)])"

declare str_nat.simps [simp del]

text \<open>\<^verbatim>\<open>str(i)\<close> for an integer: the decimal digits, after a minus sign when negative.\<close>

definition py_str :: "int \<Rightarrow> string" where
  "py_str i = (if i < 0 then CHR ''-'' # str_nat (nat (- i)) else str_nat (nat i))"

text \<open>
  \<^verbatim>\<open>int(s)\<close> for a string of ASCII characters: white space is stripped at both ends, one
  sign may come first, then decimal digits, where a single underscore may stand between
  two digits. Anything else raises ValueError (here \<open>None\<close>). The white space
  \<^verbatim>\<open>int\<close> strips from an ASCII string is the tab, the line feed, the vertical tab, the
  form feed, the carriage return and the space; the separators 0x1C to 0x1F are not
  stripped: with one of them before or after the digits, \<^verbatim>\<open>int\<close> raises.
\<close>

definition py_isspace :: "char \<Rightarrow> bool" where
  "py_isspace c = (c \<in> set [CHR 0x09, CHR 0x0A, CHR 0x0B, CHR 0x0C, CHR 0x0D, CHR 0x20])"

definition py_strip :: "string \<Rightarrow> string" where
  "py_strip s = rev (dropWhile py_isspace (rev (dropWhile py_isspace s)))"

definition digit_val :: "char \<Rightarrow> nat option" where
  "digit_val c =
     (let n = (of_char c :: nat) in if 48 \<le> n \<and> n \<le> 57 then Some (n - 48) else None)"

fun parse_digits :: "nat \<Rightarrow> string \<Rightarrow> nat option" where
  "parse_digits acc [] = Some acc"
| "parse_digits acc (c # cs) =
     (if c = CHR ''_'' then
        (case cs of
           [] \<Rightarrow> None
         | d # ds \<Rightarrow>
             (case digit_val d of
                None \<Rightarrow> None
              | Some v \<Rightarrow> parse_digits (10 * acc + v) ds))
      else
        (case digit_val c of
           None \<Rightarrow> None
         | Some v \<Rightarrow> parse_digits (10 * acc + v) cs))"

definition parse_unsigned :: "string \<Rightarrow> nat option" where
  "parse_unsigned s =
     (case s of
        [] \<Rightarrow> None
      | c # cs \<Rightarrow> (case digit_val c of None \<Rightarrow> None | Some v \<Rightarrow> parse_digits v cs))"

definition py_int :: "string \<Rightarrow> int option" where
  "py_int s =
     (case py_strip s of
        [] \<Rightarrow> None
      | c # cs \<Rightarrow>
          if c = CHR ''-'' then map_option (\<lambda>n. - int n) (parse_unsigned cs)
          else if c = CHR ''+'' then map_option int (parse_unsigned cs)
          else map_option int (parse_unsigned (c # cs)))"

text \<open>
  The strings on which \<open>py_int\<close> stands for \<^verbatim>\<open>int\<close>. Outside ASCII
  \<^verbatim>\<open>int\<close> knows further white space and further digits (a no-break space before
  the digits is stripped, and the digits of other scripts are read). And the
  interpreter refuses to convert a string of more digits than a limit, leading zeros
  counted, underscores not: the limit is 4300 unless the process sets another, and it
  cannot be set to less than \<^verbatim>\<open>sys.int_info.str_digits_check_threshold\<close>, which is 640.
  Within the threshold \<^verbatim>\<open>int\<close> and \<^verbatim>\<open>str\<close> convert under every setting. Every
  statement below that depends on how the count is read is made for these strings.
\<close>

definition str_digits_check_threshold :: nat where
  "str_digits_check_threshold = 640"

definition int_modelled :: "string \<Rightarrow> bool" where
  "int_modelled s =
     (list_all (\<lambda>c. (of_char c :: nat) < 128) s
      \<and> length (filter (\<lambda>c. digit_val c \<noteq> None) s) \<le> str_digits_check_threshold)"

text \<open>\<^verbatim>\<open>range(num)\<close>: the integers from 0 up to, not including, num; empty when num is
  zero or negative.\<close>

definition py_range :: "int \<Rightarrow> int list" where
  "py_range num = map int [0..<nat num]"

subsection \<open>The state the action works on\<close>

datatype level = DEBUG | INFO | WARNING

datatype error =
    SubstitutionFailure string
  | ValueError string
  | EntityConstructionError string
  | RuntimeError string
  | AttributeError string

type_synonym frame = "string \<rightharpoonup> string"

text \<open>
  The launch context (\<open>launch_configurations\<close>, and the scoped local variables: the
  current frame \<open>locals\<close> and the enclosing frames \<open>locals_stack\<close>, nearest first),
  together with the two pieces of process-wide state the action touches: the records
  written to the logger (\<open>logged\<close>) and the allocator of objects (\<open>next_id\<close>, the
  identity the next object made will have).
\<close>

record world =
  launch_configurations :: "string \<rightharpoonup> string"
  locals :: frame
  locals_stack :: "frame list"
  logged :: "(level \<times> string) list"
  next_id :: nat

definition logger_debug :: "string \<Rightarrow> world \<Rightarrow> world" where
  "logger_debug msg w = w\<lparr>logged := logged w @ [(DEBUG, msg)]\<rparr>"

definition logger_warning :: "string \<Rightarrow> world \<Rightarrow> world" where
  "logger_warning msg w = w\<lparr>logged := logged w @ [(WARNING, msg)]\<rparr>"

definition logger_info :: "string \<Rightarrow> world \<Rightarrow> world" where
  "logger_info msg w = w\<lparr>logged := logged w @ [(INFO, msg)]\<rparr>"

subsection \<open>The collaborators of the action\<close>

text \<open>
  Modelled from the spec: \<^verbatim>\<open>LaunchConfiguration(name).perform(context)\<close>, whose code is
  in launch/substitutions, not in for\_loop.py. The spec: the configuration value named by
  the argument is read, and the read fails when the value is absent or not declared.
\<close>

definition LaunchConfiguration_perform :: "string \<Rightarrow> world \<Rightarrow> error + string" where
  "LaunchConfiguration_perform name w =
     (case launch_configurations w name of
        None \<Rightarrow> Inl (SubstitutionFailure name)
      | Some v \<Rightarrow> Inr v)"

text \<open>
  Modelled from the spec: the scoped variable store of the launch context
  (\<^verbatim>\<open>context._push_locals()\<close>, \<^verbatim>\<open>context._pop_locals()\<close>,
  \<^verbatim>\<open>context.extend_locals(dict)\<close>, \<^verbatim>\<open>name in context.locals\<close> and
  \<^verbatim>\<open>context.locals.__getattr__(name)\<close>), whose code is in launch/launch\_context.py,
  not in for\_loop.py. The spec: a stack of frames, each a mapping from variable name to
  string; a push creates an empty frame on top; a pop discards exactly the top frame; a
  bind writes into the current frame; a lookup resolves to the nearest enclosing frame's
  binding. The spec pairs every pop with a prior push and says nothing of a pop with no
  pushed frame left: it is modelled as an error.
\<close>

definition LaunchContext_push_locals :: "world \<Rightarrow> world" where
  "LaunchContext_push_locals w = w\<lparr>locals_stack := locals w # locals_stack w, locals := Map.empty\<rparr>"

definition LaunchContext_pop_locals :: "world \<Rightarrow> error + world" where
  "LaunchContext_pop_locals w =
     (case locals_stack w of
        [] \<Rightarrow> Inl (RuntimeError ''no pushed frame to pop'')
      | f # fs \<Rightarrow> Inr (w\<lparr>locals := f, locals_stack := fs\<rparr>))"

definition LaunchContext_extend_locals :: "frame \<Rightarrow> world \<Rightarrow> world" where
  "LaunchContext_extend_locals extensions w = w\<lparr>locals := locals w ++ extensions\<rparr>"

fun lookup_frames :: "frame list \<Rightarrow> string \<Rightarrow> string option" where
  "lookup_frames [] name = None"
| "lookup_frames (f # fs) name =
     (case f name of Some v \<Rightarrow> Some v | None \<Rightarrow> lookup_frames fs name)"

definition lookup_local :: "world \<Rightarrow> string \<Rightarrow> string option" where
  "lookup_local w name = lookup_frames (locals w # locals_stack w) name"

definition locals_contains :: "world \<Rightarrow> string \<Rightarrow> bool" where
  "locals_contains w name = (lookup_local w name \<noteq> None)"

definition locals_getattr :: "world \<Rightarrow> string \<Rightarrow> error + string" where
  "locals_getattr w name =
     (case lookup_local w name of
        None \<Rightarrow> Inl (AttributeError name)
      | Some v \<Rightarrow> Inr v)"

text \<open>
  What each frame holds for a name, from the current frame outwards. A name is shadowed
  in \<open>we\<close> relative to \<open>w0\<close> when one of the frames that \<open>we\<close> has on top of as
  many frames as \<open>w0\<close> has binds it.
\<close>

definition bindings :: "string \<Rightarrow> world \<Rightarrow> string option list" where
  "bindings name w = map (\<lambda>f. f name) (locals w # locals_stack w)"


subsection \<open>Entities\<close>

text \<open>
  The three functions the action wraps in an \<^verbatim>\<open>OpaqueFunction\<close>, with their arguments:
  the bound methods \<^verbatim>\<open>self._push_locals\<close>, \<^verbatim>\<open>self._set_index_local\<close> with
  \<^verbatim>\<open>args=(name, i)\<close>, and \<^verbatim>\<open>self._pop_locals\<close>.
\<close>

datatype opaque = push_locals | set_index_local string int | pop_locals

text \<open>
  An entity of the returned list is an object with an identity (the number the allocator
  gave it): an \<^verbatim>\<open>OpaqueFunction\<close>, or an instance of one of the given entity types,
  with the attributes \<open>'b\<close> its constructor stored.
\<close>

datatype 'b entity = OpaqueFunction nat opaque | Instance nat 'b

fun entity_id :: "'b entity \<Rightarrow> nat" where
  "entity_id (OpaqueFunction k f) = k"
| "entity_id (Instance k b) = k"

fun is_push :: "'b entity \<Rightarrow> bool" where
  "is_push (OpaqueFunction k f) = (f = push_locals)"
| "is_push (Instance k b) = False"

fun is_bind :: "'b entity \<Rightarrow> bool" where
  "is_bind (OpaqueFunction k f) = (case f of set_index_local n i \<Rightarrow> True | _ \<Rightarrow> False)"
| "is_bind (Instance k b) = False"

fun is_pop :: "'b entity \<Rightarrow> bool" where
  "is_pop (OpaqueFunction k f) = (f = pop_locals)"
| "is_pop (Instance k b) = False"

fun is_instance :: "'b entity \<Rightarrow> bool" where
  "is_instance (OpaqueFunction k f) = False"
| "is_instance (Instance k b) = True"

text \<open>Making an object takes the next identity from the allocator.\<close>

definition new_OpaqueFunction :: "opaque \<Rightarrow> world \<Rightarrow> 'b entity \<times> world" where
  "new_OpaqueFunction f w = (OpaqueFunction (next_id w) f, w\<lparr>next_id := Suc (next_id w)\<rparr>)"

subsection \<open>The action\<close>

text \<open>
  The attributes \<^verbatim>\<open>_launch_argument_name\<close> and \<^verbatim>\<open>_entities\<close>; a template \<open>'t\<close> is
  one (entity type, constructor arguments) pair. The third attribute, the logger, is the
  module's logger and never changes.
\<close>

record 't ForLoop =
  launch_argument_name :: string
  entities :: "'t list"

definition ForLoop_init :: "string \<Rightarrow> 't list \<Rightarrow> 't ForLoop" where
  "ForLoop_init name ents = \<lparr>launch_argument_name = name, entities = ents\<rparr>"

text \<open>
  The list comprehension over \<^verbatim>\<open>self._entities\<close>, which calls every entity type with
  its keyword arguments. What a constructor does with its arguments is the parameter
  \<open>construct\<close>: called in the state of the process at that moment, it raises
  (\<open>Inl\<close>, with the message) or stores the attributes of the new object (\<open>Inr\<close>).
  No two calls find the same state (the allocator has moved on), so a constructor may
  accept its arguments in one iteration and reject the same arguments in a later one.
  What a constructor does to the state beyond making its object is not modelled. The
  comprehension stops at the first constructor that raises; the entities made before stay
  made, a rejected call makes none.
\<close>

fun instantiate ::
  "('t \<Rightarrow> world \<Rightarrow> string + 'b) \<Rightarrow> 't list \<Rightarrow> world \<Rightarrow> (error + 'b entity list) \<times> world" where
  "instantiate construct [] w = (Inr [], w)"
| "instantiate construct (t # ts) w =
     (case construct t w of
        Inl msg \<Rightarrow> (Inl (EntityConstructionError msg), w)
      | Inr b \<Rightarrow>
          (case instantiate construct ts (w\<lparr>next_id := Suc (next_id w)\<rparr>) of
             (Inl e, w') \<Rightarrow> (Inl e, w')
           | (Inr es, w') \<Rightarrow> (Inr (Instance (next_id w) b # es), w')))"

text \<open>
  One turn of \<^verbatim>\<open>for i in range(num)\<close>: the elements of the list literal are made from
  left to right, then \<^verbatim>\<open>entities.extend\<close> appends them. The action itself is passed
  through with the state, so that what the loop does to it can be stated.
\<close>

definition for_body ::
  "('t \<Rightarrow> world \<Rightarrow> string + 'b) \<Rightarrow> 't ForLoop \<Rightarrow> int \<Rightarrow> 'b entity list \<Rightarrow> world
     \<Rightarrow> (error + 'b entity list) \<times> 't ForLoop \<times> world" where
  "for_body construct self i ents w =
     (let (push, w1) = new_OpaqueFunction push_locals w;
          (bind, w2) = new_OpaqueFunction (set_index_local (launch_argument_name self) i) w1
      in case instantiate construct (entities self) w2 of
           (Inl e, w3) \<Rightarrow> (Inl e, self, w3)
         | (Inr insts, w3) \<Rightarrow>
             (let (pop, w4) = new_OpaqueFunction pop_locals w3
              in (Inr (ents @ ([push, bind] @ insts @ [pop])), self, w4)))"

fun for_range ::
  "('t \<Rightarrow> world \<Rightarrow> string + 'b) \<Rightarrow> 't ForLoop \<Rightarrow> int list \<Rightarrow> 'b entity list \<Rightarrow> world
     \<Rightarrow> (error + 'b entity list) \<times> 't ForLoop \<times> world" where
  "for_range construct self [] ents w = (Inr ents, self, w)"
| "for_range construct self (i # is) ents w =
     (case for_body construct self i ents w of
        (Inl e, self', w') \<Rightarrow> (Inl e, self', w')
      | (Inr ents', self', w') \<Rightarrow> for_range construct self' is ents' w')"

text \<open>
  \<^verbatim>\<open>ForLoop.execute\<close>: what the call returns or raises, with the action and the state
  after the call. An exception leaves both as they are at the moment it is raised.
\<close>

definition ForLoop_execute ::
  "('t \<Rightarrow> world \<Rightarrow> string + 'b) \<Rightarrow> 't ForLoop \<Rightarrow> world
     \<Rightarrow> (error + 'b entity list) \<times> 't ForLoop \<times> world" where
  "ForLoop_execute construct self w =
     (case LaunchConfiguration_perform (launch_argument_name self) w of
        Inl e \<Rightarrow> (Inl e, self, w)
      | Inr s \<Rightarrow>
          (case py_int s of
             None \<Rightarrow> (Inl (ValueError s), self, w)
           | Some num \<Rightarrow>
               for_range construct self (py_range num) []
                 (logger_debug (''for-loop length='' @ py_str num) w)))"

text \<open>
  The three methods an \<^verbatim>\<open>OpaqueFunction\<close> calls with the context. Each returns
  \<^verbatim>\<open>None\<close> (no further entities); \<open>self\<close> is used only to reach the logger.
\<close>

definition ForLoop_push_locals :: "world \<Rightarrow> error + (world \<times> 'b entity list option)" where
  "ForLoop_push_locals w = Inr (LaunchContext_push_locals w, None)"

definition ForLoop_pop_locals :: "world \<Rightarrow> error + (world \<times> 'b entity list option)" where
  "ForLoop_pop_locals w =
     (case LaunchContext_pop_locals w of
        Inl e \<Rightarrow> Inl e
      | Inr w' \<Rightarrow> Inr (w', None))"

definition ForLoop_set_index_local ::
  "world \<Rightarrow> string \<Rightarrow> int \<Rightarrow> error + (world \<times> 'b entity list option)" where
  "ForLoop_set_index_local w local_name index =
     (case (if locals_contains w local_name then
              (case locals_getattr w local_name of
                 Inl e \<Rightarrow> Inl e
               | Inr v \<Rightarrow>
                   Inr (logger_warning
                          (''local variable already exists: '' @ local_name @ ''='' @ v) w))
            else Inr w) of
        Inl e \<Rightarrow> Inl e
      | Inr w1 \<Rightarrow>
          Inr (LaunchContext_extend_locals [local_name \<mapsto> py_str index] w1, None))"

subsection \<open>Describing the returned list\<close>

text \<open>
  The list one iteration contributes when the first identity it takes is \<open>k\<close> and the
  constructors stored \<open>bs\<close>, and the list of iterations that all store the same. They
  are the closed form the loop is compared with.
\<close>

fun instances_from :: "nat \<Rightarrow> 'b list \<Rightarrow> 'b entity list" where
  "instances_from k [] = []"
| "instances_from k (b # bs) = Instance k b # instances_from (Suc k) bs"

definition iteration_entities :: "string \<Rightarrow> 'b list \<Rightarrow> nat \<Rightarrow> int \<Rightarrow> 'b entity list" where
  "iteration_entities name bs k i =
     [OpaqueFunction k push_locals, OpaqueFunction (k + 1) (set_index_local name i)]
     @ instances_from (k + 2) bs
     @ [OpaqueFunction (k + 2 + length bs) pop_locals]"

fun expansion :: "string \<Rightarrow> 'b list \<Rightarrow> nat \<Rightarrow> int list \<Rightarrow> 'b entity list" where
  "expansion name bs k [] = []"
| "expansion name bs k (i # is) =
     iteration_entities name bs k i @ expansion name bs (k + length bs + 3) is"

text \<open>
  The calls of one list comprehension that starts in the state \<open>w\<close>: the constructor of
  the template at position \<open>p\<close> (from 0) is called when the \<open>p\<close> templates before it
  have been accepted, so in \<open>w\<close> with the allocator moved on by \<open>p\<close>.
  \<open>constructed\<close> is what the constructors store, in the order of the templates, and
  \<open>first_rejected\<close> the position of the first template whose constructor raises.
\<close>

definition constructed :: "('t \<Rightarrow> world \<Rightarrow> string + 'b) \<Rightarrow> 't list \<Rightarrow> world \<Rightarrow> 'b list" where
  "constructed construct ts w =
     map (\<lambda>p. projr (construct (ts ! p) (w\<lparr>next_id := next_id w + p\<rparr>))) [0..<length ts]"

definition first_rejected :: "('t \<Rightarrow> world \<Rightarrow> string + 'b) \<Rightarrow> 't list \<Rightarrow> world \<Rightarrow> nat option" where
  "first_rejected construct ts w =
     find (\<lambda>p. isl (construct (ts ! p) (w\<lparr>next_id := next_id w + p\<rparr>))) [0..<length ts]"

text \<open>
  The state in which turn \<open>j\<close> (from 0) of a loop over \<open>m\<close> templates begins its list
  comprehension, when the loop started in \<open>w\<close> and the turns before it went through:
  each of those made \<open>m + 3\<close> objects, and this one has made its push step and its bind
  step.
\<close>

definition turn_state :: "world \<Rightarrow> nat \<Rightarrow> nat \<Rightarrow> world" where
  "turn_state w m j = w\<lparr>next_id := next_id w + j * (m + 3) + 2\<rparr>"

text \<open>The list of the iterations \<open>is\<close> of a loop that starts in \<open>w\<close>.\<close>

fun expansion_at ::
  "('t \<Rightarrow> world \<Rightarrow> string + 'b) \<Rightarrow> string \<Rightarrow> 't list \<Rightarrow> world \<Rightarrow> int list \<Rightarrow> 'b entity list" where
  "expansion_at construct name ts w [] = []"
| "expansion_at construct name ts w (i # is) =
     iteration_entities name (constructed construct ts (turn_state w (length ts) 0)) (next_id w) i
     @ expansion_at construct name ts (w\<lparr>next_id := next_id w + length ts + 3\<rparr>) is"

subsection \<open>Running a returned list\<close>

text \<open>
  Modelled from the spec: \<^verbatim>\<open>OpaqueFunction.execute\<close>, whose code is in
  launch/actions/opaque\_function.py, not in for\_loop.py. The spec: an entity that wraps a
  function and invokes it against the execution context at its turn in the sequence.
\<close>

definition OpaqueFunction_execute :: "opaque \<Rightarrow> world \<Rightarrow> error + (world \<times> 'b entity list option)" where
  "OpaqueFunction_execute f w =
     (case f of
        push_locals \<Rightarrow> ForLoop_push_locals w
      | set_index_local name i \<Rightarrow> ForLoop_set_index_local w name i
      | pop_locals \<Rightarrow> ForLoop_pop_locals w)"

text \<open>
  Modelled from the spec: the entity execution contract and the caller that runs a
  returned list, whose code is in the launch service, not in for\_loop.py. The spec:
  \<^verbatim>\<open>execute(context)\<close> optionally returns an ordered list of further entities; the
  caller executes the list strictly in order, and what an entity returned is executed
  (recursively) at its place, before the next entity of the list. \<open>exec\<close> says what the
  instances of the entity types do. The fuel bounds how deep entities returned by entities
  may nest: \<open>None\<close> is a run that needed more. A finished run gives the last state and, in
  the order of execution, every entity executed with the state it was executed in.
\<close>

definition entity_execute ::
  "('b \<Rightarrow> world \<Rightarrow> error + (world \<times> 'b entity list option)) \<Rightarrow> 'b entity \<Rightarrow> world
     \<Rightarrow> error + (world \<times> 'b entity list option)" where
  "entity_execute exec e w =
     (case e of
        OpaqueFunction k f \<Rightarrow> OpaqueFunction_execute f w
      | Instance k b \<Rightarrow> exec b w)"

definition returned :: "'b entity list option \<Rightarrow> 'b entity list" where
  "returned r = (case r of None \<Rightarrow> [] | Some es \<Rightarrow> es)"

fun visit ::
  "('b \<Rightarrow> world \<Rightarrow> error + (world \<times> 'b entity list option)) \<Rightarrow> nat \<Rightarrow> 'b entity list \<Rightarrow> world
     \<Rightarrow> (error + world \<times> ('b entity \<times> world) list) option" where
  "visit exec fuel [] w = Some (Inr (w, []))"
| "visit exec 0 (e # es) w = None"
| "visit exec (Suc fuel) (e # es) w =
     (case entity_execute exec e w of
        Inl err \<Rightarrow> Some (Inl err)
      | Inr (w1, r) \<Rightarrow>
          (case visit exec fuel (returned r) w1 of
             None \<Rightarrow> None
           | Some (Inl err) \<Rightarrow> Some (Inl err)
           | Some (Inr (w2, h1)) \<Rightarrow>
               (case visit exec (Suc fuel) es w2 of
                  None \<Rightarrow> None
                | Some (Inl err) \<Rightarrow> Some (Inl err)
                | Some (Inr (w3, h2)) \<Rightarrow> Some (Inr (w3, (e, w) # h1 @ h2)))))"

text \<open>
  One run after another: the second starts in the state the first finished in, and the
  records of both are joined. It says how a run treats a list made of two parts.
\<close>

definition and_then ::
  "(error + world \<times> 'h list) option \<Rightarrow> (world \<Rightarrow> (error + world \<times> 'h list) option)
     \<Rightarrow> (error + world \<times> 'h list) option" where
  "and_then r k =
     (case r of
        None \<Rightarrow> None
      | Some (Inl err) \<Rightarrow> Some (Inl err)
      | Some (Inr (w1, h1)) \<Rightarrow>
          (case k w1 of
             None \<Rightarrow> None
           | Some (Inl err) \<Rightarrow> Some (Inl err)
           | Some (Inr (w2, h2)) \<Rightarrow> Some (Inr (w2, h1 @ h2))))"


subsection \<open>The entities of the examples\<close>

text \<open>
  \<^verbatim>\<open>ForLoop.IndexSubstitution = LocalSubstitution\<close> (line 80 of for\_loop.py).

  Modelled from the spec: \<^verbatim>\<open>LocalSubstitution(name).perform(context)\<close>, whose code is in
  launch/substitutions, not in for\_loop.py. The spec: the index reference resolves, at
  execution time, to the string bound to the name in the scope chain, or is not found.
\<close>

datatype substitution = TextSubstitution string | LocalSubstitution string

abbreviation IndexSubstitution :: "string \<Rightarrow> substitution" where
  "IndexSubstitution \<equiv> LocalSubstitution"

definition LocalSubstitution_perform :: "string \<Rightarrow> world \<Rightarrow> error + string" where
  "LocalSubstitution_perform name w = locals_getattr w name"

fun substitution_perform :: "substitution \<Rightarrow> world \<Rightarrow> error + string" where
  "substitution_perform (TextSubstitution s) w = Inr s"
| "substitution_perform (LocalSubstitution name) w = LocalSubstitution_perform name w"

fun perform_substitutions :: "substitution list \<Rightarrow> world \<Rightarrow> error + string" where
  "perform_substitutions [] w = Inr []"
| "perform_substitutions (s # ss) w =
     (case substitution_perform s w of
        Inl e \<Rightarrow> Inl e
      | Inr x \<Rightarrow>
          (case perform_substitutions ss w of
             Inl e \<Rightarrow> Inl e
           | Inr y \<Rightarrow> Inr (x @ y)))"

text \<open>
  Two functions a user may give to an \<^verbatim>\<open>OpaqueFunction\<close> of a loop's body: one calls
  \<^verbatim>\<open>context.extend_locals({n: v})\<close>, the other \<^verbatim>\<open>context._push_locals()\<close>; both return
  \<^verbatim>\<open>None\<close>.
\<close>

datatype user_function = bind_local string string | push_frame

definition user_function_call :: "user_function \<Rightarrow> world \<Rightarrow> world" where
  "user_function_call fn w =
     (case fn of
        bind_local n v \<Rightarrow> LaunchContext_extend_locals [n \<mapsto> v] w
      | push_frame \<Rightarrow> LaunchContext_push_locals w)"

text \<open>
  The entity types of the action's own documentation: \<^verbatim>\<open>LogInfo\<close> with its
  \<^verbatim>\<open>msg\<close>, and \<^verbatim>\<open>ForLoop\<close> itself with its argument name and templates (a loop in a
  loop); and an \<^verbatim>\<open>OpaqueFunction\<close> with a function of the user's. A value of
  \<open>action\<close> is both the template (the type with its arguments) and the attributes the
  constructor stores; these constructors accept every argument, in every state.

  Modelled from the spec: \<^verbatim>\<open>LogInfo.execute\<close>, whose code is in
  launch/actions/log\_info.py: it emits the text its substitutions resolve to.
\<close>

datatype action =
    LogInfo "substitution list"
  | ForLoopAction string "action list"
  | OpaqueFunctionAction user_function

definition construct_action :: "action \<Rightarrow> world \<Rightarrow> string + action" where
  "construct_action t w = Inr t"

fun action_execute :: "action \<Rightarrow> world \<Rightarrow> error + (world \<times> action entity list option)" where
  "action_execute (LogInfo msg) w =
     (case perform_substitutions msg w of
        Inl e \<Rightarrow> Inl e
      | Inr s \<Rightarrow> Inr (logger_info s w, None))"
| "action_execute (ForLoopAction name ts) w =
     (case ForLoop_execute construct_action (ForLoop_init name ts) w of
        (Inl e, self, w') \<Rightarrow> Inl e
      | (Inr es, self, w') \<Rightarrow> Inr (w', Some es))"
| "action_execute (OpaqueFunctionAction fn) w = Inr (user_function_call fn w, None)"

text \<open>An action made of log actions and loops only, at every depth.\<close>

fun plain :: "action \<Rightarrow> bool" where
  "plain (LogInfo msg) = True"
| "plain (ForLoopAction n ts) = list_all plain ts"
| "plain (OpaqueFunctionAction fn) = False"

text \<open>
  What a reference to \<open>name\<close> resolves to in the state of each executed instance, in the
  order of execution; and, of a finished run, the logger's records with these values.
\<close>

definition resolved_in :: "string \<Rightarrow> ('b entity \<times> world) list \<Rightarrow> (error + string) list" where
  "resolved_in name h =
     map (\<lambda>(e, we). LocalSubstitution_perform name we) (filter (\<lambda>(e, we). is_instance e) h)"

definition observed ::
  "string \<Rightarrow> (error + world \<times> ('b entity \<times> world) list) option
     \<Rightarrow> ((level \<times> string) list \<times> (error + string) list) option" where
  "observed name r =
     (case r of
        Some (Inr (w, h)) \<Rightarrow> Some (logged w, resolved_in name h)
      | _ \<Rightarrow> None)"

text \<open>Of a finished run: what a lookup of \<open>name\<close> gives in the state it ended in.\<close>

definition lookup_after ::
  "string \<Rightarrow> (error + world \<times> ('b entity \<times> world) list) option \<Rightarrow> string option option" where
  "lookup_after name r =
     (case r of
        Some (Inr (w, h)) \<Rightarrow> Some (lookup_local w name)
      | _ \<Rightarrow> None)"

text \<open>
  The statement proved of log actions and loops by induction on their structure: a
  finished run of one instance leaves the frames of local variables as they were, and
  every entity executed on the way found the frames the run started with, with what they
  hold for \<open>name\<close>, below the frames pushed since.
\<close>

definition scoped :: "string \<Rightarrow> action \<Rightarrow> bool" where
  "scoped name a =
     (\<forall>f k w w' h. visit action_execute f [Instance k a] w = Some (Inr (w', h)) \<longrightarrow>
        locals w' = locals w \<and> locals_stack w' = locals_stack w
        \<and> (\<forall>x \<in> set h. suffix (bindings name w) (bindings name (snd x))))"

text \<open>How deep the loops of an action nest: the fuel a run of it needs is one more.\<close>

fun depth :: "action \<Rightarrow> nat" where
  "depth (LogInfo msg) = 0"
| "depth (ForLoopAction n ts) = Suc (foldr (\<lambda>t m. max (depth t) m) ts 0)"
| "depth (OpaqueFunctionAction fn) = 0"

subsection \<open>Inputs for the examples\<close>

definition world_with_num :: "string \<Rightarrow> world" where
  "world_with_num v =
     \<lparr>launch_configurations = [''num'' \<mapsto> v], locals = Map.empty, locals_stack = [],
      logged = [], next_id = 0\<rparr>"

definition accept_unless_bad :: "string \<Rightarrow> world \<Rightarrow> string + string" where
  "accept_unless_bad t w = (if t = ''bad'' then Inl ''unexpected keyword argument'' else Inr t)"

definition reject_all :: "string \<Rightarrow> world \<Rightarrow> string + string" where
  "reject_all t w = Inl ''rejected''"

text \<open>A constructor that raises once \<open>limit\<close> objects have been made in the process.\<close>

definition accept_below :: "nat \<Rightarrow> string \<Rightarrow> world \<Rightarrow> string + string" where
  "accept_below limit t w = (if next_id w < limit then Inr t else Inl ''too many objects'')"

definition world_without_num :: world where
  "world_without_num =
     \<lparr>launch_configurations = Map.empty, locals = Map.empty, locals_stack = [],
      logged = [], next_id = 0\<rparr>"

definition world_with_outer :: "string \<Rightarrow> string \<Rightarrow> world" where
  "world_with_outer v outer =
     \<lparr>launch_configurations = [''num'' \<mapsto> v], locals = [''num'' \<mapsto> outer], locals_stack = [],
      logged = [], next_id = 0\<rparr>"


section \<open>What the loop returns\<close>

lemma length_instances_from [simp]: "length (instances_from k bs) = length bs"
  by (induction bs arbitrary: k) auto

lemma find_map: "find P (map f xs) = map_option f (find (P \<circ> f) xs)"
  by (induction xs) simp_all

lemma upt_0_Suc: "[0..<Suc n] = 0 # map Suc [0..<n]"
  by (simp add: upt_conv_Cons map_Suc_upt del: upt_Suc)

lemma same_next_id [simp]: "w\<lparr>next_id := next_id w\<rparr> = w"
  by simp

lemma constructed_simps:
  "constructed construct [] w = []"
  "constructed construct (t # ts) w =
     projr (construct t w) # constructed construct ts (w\<lparr>next_id := Suc (next_id w)\<rparr>)"
  by (simp_all add: constructed_def upt_0_Suc del: upt_Suc)

lemma first_rejected_simps:
  "first_rejected construct [] w = None"
  "first_rejected construct (t # ts) w =
     (if isl (construct t w) then Some 0
      else map_option Suc (first_rejected construct ts (w\<lparr>next_id := Suc (next_id w)\<rparr>)))"
  by (simp_all add: first_rejected_def upt_0_Suc find_map comp_def del: upt_Suc)

lemma length_constructed [simp]: "length (constructed construct ts w) = length ts"
  by (simp add: constructed_def)

lemma instantiate_eq:
  "instantiate construct ts w =
     (case first_rejected construct ts w of
        Some n \<Rightarrow>
          (Inl (EntityConstructionError
                  (projl (construct (ts ! n) (w\<lparr>next_id := next_id w + n\<rparr>)))),
           w\<lparr>next_id := next_id w + n\<rparr>)
      | None \<Rightarrow> (Inr (instances_from (next_id w) (constructed construct ts w)),
                 w\<lparr>next_id := next_id w + length ts\<rparr>))"
proof (induction ts arbitrary: w)
  case Nil
  then show ?case by (simp add: constructed_simps first_rejected_simps)
next
  case (Cons t ts)
  show ?case
  proof (cases "construct t w")
    case (Inl msg)
    then show ?thesis by (simp add: first_rejected_simps)
  next
    case (Inr b)
    then show ?thesis
      using Cons.IH [of "w\<lparr>next_id := Suc (next_id w)\<rparr>"]
      by (simp add: first_rejected_simps constructed_simps split: option.splits)
  qed
qed

lemma turn_state_0: "turn_state w m 0 = w\<lparr>next_id := next_id w + 2\<rparr>"
  by (simp add: turn_state_def)

lemma turn_state_Suc:
  "turn_state (w\<lparr>next_id := next_id w + m + 3\<rparr>) m j = turn_state w m (Suc j)"
  by (simp add: turn_state_def add.assoc add.left_commute)

lemma turn_state_fields [simp]:
  "next_id (turn_state w m j) = next_id w + j * (m + 3) + 2"
  "(turn_state w m j)\<lparr>next_id := k\<rparr> = w\<lparr>next_id := k\<rparr>"
  by (simp_all add: turn_state_def)

lemma for_body_eq:
  "for_body construct self i ents w =
     (case first_rejected construct (entities self) (turn_state w (length (entities self)) 0) of
        Some n \<Rightarrow>
          (Inl (EntityConstructionError
                  (projl (construct (entities self ! n) (w\<lparr>next_id := next_id w + 2 + n\<rparr>)))),
           self, w\<lparr>next_id := next_id w + 2 + n\<rparr>)
      | None \<Rightarrow>
          (Inr (ents @ iteration_entities (launch_argument_name self)
                         (constructed construct (entities self)
                            (turn_state w (length (entities self)) 0))
                         (next_id w) i),
           self, w\<lparr>next_id := next_id w + length (entities self) + 3\<rparr>))"
  by (simp add: for_body_def new_OpaqueFunction_def instantiate_eq iteration_entities_def
      turn_state_0 split: option.splits)

lemma for_body_self: "fst (snd (for_body construct self i ents w)) = self"
  by (simp add: for_body_eq split: option.splits)

lemma for_range_self: "fst (snd (for_range construct self is ents w)) = self"
proof (induction "is" arbitrary: ents w)
  case Nil
  then show ?case by simp
next
  case (Cons i "is")
  then show ?case
    by (simp add: for_body_eq split: option.splits)
qed

lemma for_range_accepting:
  assumes "\<forall>j<length is.
             first_rejected construct (entities self) (turn_state w (length (entities self)) j)
               = None"
  shows "for_range construct self is ents w =
     (Inr (ents @ expansion_at construct (launch_argument_name self) (entities self) w is), self,
      w\<lparr>next_id := next_id w + length is * (length (entities self) + 3)\<rparr>)"
  using assms
proof (induction "is" arbitrary: ents w)
  case Nil
  then show ?case by simp
next
  case (Cons i "is")
  let ?m = "length (entities self)"
  let ?w' = "w\<lparr>next_id := next_id w + ?m + 3\<rparr>"
  from Cons.prems have first: "first_rejected construct (entities self) (turn_state w ?m 0) = None"
    by auto
  have "\<forall>j<length is. first_rejected construct (entities self) (turn_state ?w' ?m j) = None"
    using Cons.prems by (auto simp: turn_state_Suc)
  from Cons.IH [OF this] first show ?case
    by (simp add: for_body_eq add.assoc add.left_commute)
qed

lemma for_range_rejecting:
  assumes "k < length is"
    and "\<forall>j<k. first_rejected construct (entities self) (turn_state w (length (entities self)) j)
                 = None"
    and "first_rejected construct (entities self) (turn_state w (length (entities self)) k)
           = Some n"
  shows "for_range construct self is ents w =
     (Inl (EntityConstructionError
             (projl (construct (entities self ! n)
                       (w\<lparr>next_id := next_id w + k * (length (entities self) + 3) + 2 + n\<rparr>)))),
      self, w\<lparr>next_id := next_id w + k * (length (entities self) + 3) + 2 + n\<rparr>)"
  using assms
proof (induction "is" arbitrary: k ents w)
  case Nil
  then show ?case by simp
next
  case (Cons i "is")
  let ?m = "length (entities self)"
  let ?w' = "w\<lparr>next_id := next_id w + ?m + 3\<rparr>"
  show ?case
  proof (cases k)
    case 0
    with Cons.prems(3) show ?thesis
      by (simp add: for_body_eq)
  next
    case (Suc k')
    with Cons.prems(2) have first: "first_rejected construct (entities self) (turn_state w ?m 0) = None"
      by auto
    from Cons.prems(1) Suc have 1: "k' < length is"
      by simp
    from Cons.prems(2) Suc
    have 2: "\<forall>j<k'. first_rejected construct (entities self) (turn_state ?w' ?m j) = None"
      by (auto simp: turn_state_Suc)
    from Cons.prems(3) Suc
    have 3: "first_rejected construct (entities self) (turn_state ?w' ?m k') = Some n"
      by (simp add: turn_state_Suc)
    from Cons.IH [OF 1 2 3] first show ?thesis
      by (simp add: for_body_eq Suc add.assoc add.left_commute)
  qed
qed

lemma for_range_Inr:
  assumes "for_range construct self is ents w = (Inr es, self', w')"
  shows "\<forall>j<length is.
           first_rejected construct (entities self) (turn_state w (length (entities self)) j) = None"
  using assms
proof (induction "is" arbitrary: ents w)
  case Nil
  then show ?case by simp
next
  case (Cons i "is")
  let ?m = "length (entities self)"
  let ?w' = "w\<lparr>next_id := next_id w + ?m + 3\<rparr>"
  show ?case
  proof (cases "first_rejected construct (entities self) (turn_state w ?m 0)")
    case (Some n)
    with Cons.prems show ?thesis
      by (simp add: for_body_eq)
  next
    case None
    with Cons.prems obtain ents' where "for_range construct self is ents' ?w' = (Inr es, self', w')"
      by (simp add: for_body_eq)
    from Cons.IH [OF this]
    have ih: "\<forall>j<length is. first_rejected construct (entities self) (turn_state ?w' ?m j) = None" .
    show ?thesis
    proof (intro allI impI)
      fix j
      assume "j < length (i # is)"
      with None ih show "first_rejected construct (entities self) (turn_state w ?m j) = None"
        by (cases j) (auto simp: turn_state_Suc)
    qed
  qed
qed

lemma ForLoop_execute_eq:
  "ForLoop_execute construct self w =
     (case launch_configurations w (launch_argument_name self) of
        None \<Rightarrow> (Inl (SubstitutionFailure (launch_argument_name self)), self, w)
      | Some s \<Rightarrow>
          (case py_int s of
             None \<Rightarrow> (Inl (ValueError s), self, w)
           | Some num \<Rightarrow>
               for_range construct self (py_range num) []
                 (logger_debug (''for-loop length='' @ py_str num) w)))"
  by (simp add: ForLoop_execute_def LaunchConfiguration_perform_def split: option.splits)

lemma expansion_at_concat:
  "expansion_at construct name ts w is =
     concat (map (\<lambda>j. iteration_entities name
                         (constructed construct ts (turn_state w (length ts) j))
                         (next_id w + j * (length ts + 3)) (is ! j))
                 [0..<length is])"
proof (induction "is" arbitrary: w)
  case Nil
  then show ?case by simp
next
  case (Cons i "is")
  have upt: "[0..<Suc (length is)] = 0 # map Suc [0..<length is]"
    by (rule upt_0_Suc)
  have step: "\<And>j. next_id w + length ts + 3 + j * (length ts + 3)
                   = next_id w + Suc j * (length ts + 3)"
    by simp
  show ?case
    by (simp add: upt Cons.IH comp_def turn_state_Suc step del: upt_Suc mult_Suc)
qed

lemma expansion_at_range:
  "expansion_at construct name ts w (py_range num) =
     concat (map (\<lambda>j. iteration_entities name
                         (constructed construct ts (turn_state w (length ts) j))
                         (next_id w + j * (length ts + 3)) (int j))
                 [0..<nat num])"
proof -
  have "map (\<lambda>j. iteration_entities name (constructed construct ts (turn_state w (length ts) j))
                   (next_id w + j * (length ts + 3)) (py_range num ! j))
            [0..<nat num] =
        map (\<lambda>j. iteration_entities name (constructed construct ts (turn_state w (length ts) j))
                   (next_id w + j * (length ts + 3)) (int j))
            [0..<nat num]"
    by (rule map_cong) (simp_all add: py_range_def)
  moreover have "length (py_range num) = nat num"
    by (simp add: py_range_def)
  ultimately show ?thesis
    by (simp only: expansion_at_concat)
qed

lemma ids_instances_from: "map entity_id (instances_from k bs) = [k..<k + length bs]"
  by (induction bs arbitrary: k) (simp_all add: upt_conv_Cons del: upt_Suc)

lemma ids_iteration:
  "map entity_id (iteration_entities name bs k i) = [k..<k + (length bs + 3)]"
proof -
  have "[k..<k + (length bs + 3)] = [k..<k + 2] @ [k + 2..<k + 2 + (length bs + 1)]"
    using upt_add_eq_append [of k "k + 2" "length bs + 1"] by (simp add: numeral_3_eq_3)
  also have "[k..<k + 2] = [k, k + 1]"
    by (simp add: upt_conv_Cons del: upt_Suc)
  also have "[k + 2..<k + 2 + (length bs + 1)] = [k + 2..<k + 2 + length bs] @ [k + 2 + length bs]"
    by simp
  finally show ?thesis
    by (simp add: iteration_entities_def ids_instances_from)
qed

lemma ids_expansion_at:
  "map entity_id (expansion_at construct name ts w is)
     = [next_id w..<next_id w + length is * (length ts + 3)]"
proof (induction "is" arbitrary: w)
  case Nil
  then show ?case by simp
next
  case (Cons i "is")
  let ?k = "next_id w"
  have "[?k..<?k + (length ts + 3) + length is * (length ts + 3)] =
        [?k..<?k + (length ts + 3)]
        @ [?k + (length ts + 3)..<?k + (length ts + 3) + length is * (length ts + 3)]"
    by (rule upt_add_eq_append) simp
  then show ?case
    using Cons.IH [of "w\<lparr>next_id := next_id w + length ts + 3\<rparr>"]
    by (simp add: ids_iteration add.assoc)
qed

lemma count_instances_from:
  "length (filter is_push (instances_from k bs)) = 0"
  "length (filter is_bind (instances_from k bs)) = 0"
  "length (filter is_pop (instances_from k bs)) = 0"
  "length (filter is_instance (instances_from k bs)) = length bs"
  by (induction bs arbitrary: k) auto

lemma count_iteration:
  "length (filter is_push (iteration_entities name bs k i)) = 1"
  "length (filter is_bind (iteration_entities name bs k i)) = 1"
  "length (filter is_pop (iteration_entities name bs k i)) = 1"
  "length (filter is_instance (iteration_entities name bs k i)) = length bs"
  by (simp_all add: iteration_entities_def count_instances_from)

lemma count_expansion_at:
  "length (filter is_push (expansion_at construct name ts w is)) = length is"
  "length (filter is_bind (expansion_at construct name ts w is)) = length is"
  "length (filter is_pop (expansion_at construct name ts w is)) = length is"
  "length (filter is_instance (expansion_at construct name ts w is)) = length is * length ts"
  by (induction "is" arbitrary: w) (simp_all add: count_iteration)

lemma length_py_range [simp]: "length (py_range num) = nat num"
  by (simp add: py_range_def)

lemma py_range_Nil [simp]: "(py_range num = []) = (num \<le> 0)"
  by (simp add: py_range_def)

lemma logger_fields [simp]:
  "next_id (logger_debug m w) = next_id w"
  "launch_configurations (logger_debug m w) = launch_configurations w"
  "locals (logger_debug m w) = locals w"
  "locals_stack (logger_debug m w) = locals_stack w"
  "next_id (logger_warning m w) = next_id w"
  "launch_configurations (logger_warning m w) = launch_configurations w"
  "locals (logger_warning m w) = locals w"
  "locals_stack (logger_warning m w) = locals_stack w"
  "next_id (logger_info m w) = next_id w"
  "launch_configurations (logger_info m w) = launch_configurations w"
  "locals (logger_info m w) = locals w"
  "locals_stack (logger_info m w) = locals_stack w"
  by (simp_all add: logger_debug_def logger_warning_def logger_info_def)

lemma py_str_0 [simp]: "py_str 0 = ''0''"
  by (simp add: py_str_def str_nat.simps digit_char_def)

lemma instance_in_instances_from:
  "e \<in> set (instances_from k bs) \<Longrightarrow> \<exists>k' b. b \<in> set bs \<and> e = Instance k' b"
proof (induction bs arbitrary: k)
  case Nil
  then show ?case by simp
next
  case (Cons a bs)
  from Cons.prems have "e = Instance k a \<or> e \<in> set (instances_from (Suc k) bs)"
    by simp
  then show ?case
  proof
    assume "e = Instance k a"
    then show ?thesis by auto
  next
    assume "e \<in> set (instances_from (Suc k) bs)"
    from Cons.IH [OF this] show ?thesis by auto
  qed
qed

lemma instance_in_iteration:
  "e \<in> set (iteration_entities name bs k i) \<Longrightarrow> is_instance e \<Longrightarrow>
   \<exists>k' b. b \<in> set bs \<and> e = Instance k' b"
  by (auto simp: iteration_entities_def dest: instance_in_instances_from)

lemma instance_in_expansion:
  "e \<in> set (expansion name bs k is) \<Longrightarrow> is_instance e \<Longrightarrow>
   \<exists>k' b. b \<in> set bs \<and> e = Instance k' b"
  by (induction "is" arbitrary: k) (auto dest: instance_in_iteration)

lemma instance_constructed:
  assumes "first_rejected construct ts w = None"
    and "e \<in> set (instances_from (next_id w) (constructed construct ts w))"
  shows "\<exists>k t b. t \<in> set ts \<and> construct t (w\<lparr>next_id := k\<rparr>) = Inr b \<and> e = Instance k b"
  using assms
proof (induction ts arbitrary: w)
  case Nil
  then show ?case by (simp add: constructed_simps)
next
  case (Cons t ts)
  let ?w' = "w\<lparr>next_id := Suc (next_id w)\<rparr>"
  from Cons.prems(1) have acc: "\<not> isl (construct t w)"
    and rest: "first_rejected construct ts ?w' = None"
    by (auto simp: first_rejected_simps split: if_splits)
  from Cons.prems(2)
  have "e = Instance (next_id w) (projr (construct t w))
        \<or> e \<in> set (instances_from (next_id ?w') (constructed construct ts ?w'))"
    by (simp add: constructed_simps)
  then show ?case
  proof
    assume e: "e = Instance (next_id w) (projr (construct t w))"
    from acc have "construct t (w\<lparr>next_id := next_id w\<rparr>) = Inr (projr (construct t w))"
      by (cases "construct t w") auto
    with e show ?thesis
      by (intro exI [of _ "next_id w"] exI [of _ t] exI [of _ "projr (construct t w)"]) simp
  next
    assume "e \<in> set (instances_from (next_id ?w') (constructed construct ts ?w'))"
    from Cons.IH [OF rest this] show ?thesis
      by auto
  qed
qed

lemma instance_in_expansion_at:
  assumes "\<forall>j<length is. first_rejected construct ts (turn_state w (length ts) j) = None"
    and "e \<in> set (expansion_at construct name ts w is)"
    and "is_instance e"
  shows "\<exists>k t b. t \<in> set ts \<and> construct t (w\<lparr>next_id := k\<rparr>) = Inr b \<and> e = Instance k b"
  using assms(1,2)
proof (induction "is" arbitrary: w)
  case Nil
  then show ?case by simp
next
  case (Cons i "is")
  let ?m = "length ts"
  let ?w' = "w\<lparr>next_id := next_id w + ?m + 3\<rparr>"
  from Cons.prems(1) have first: "first_rejected construct ts (turn_state w ?m 0) = None"
    by auto
  have later: "\<forall>j<length is. first_rejected construct ts (turn_state ?w' ?m j) = None"
    using Cons.prems(1) by (auto simp: turn_state_Suc)
  from Cons.prems(2) assms(3)
  have "e \<in> set (instances_from (next_id (turn_state w ?m 0))
                    (constructed construct ts (turn_state w ?m 0)))
        \<or> e \<in> set (expansion_at construct name ts ?w' is)"
    by (auto simp: iteration_entities_def)
  then show ?case
  proof
    assume "e \<in> set (instances_from (next_id (turn_state w ?m 0))
                       (constructed construct ts (turn_state w ?m 0)))"
    from instance_constructed [OF first this] show ?thesis
      by simp
  next
    assume "e \<in> set (expansion_at construct name ts ?w' is)"
    from Cons.IH [OF later this] show ?thesis
      by simp
  qed
qed

lemma constructed_action [simp]: "constructed construct_action ts w = ts"
  by (simp add: constructed_def construct_action_def map_nth)

lemma first_rejected_action [simp]: "first_rejected construct_action ts w = None"
  by (simp add: first_rejected_def construct_action_def find_None_iff)

lemma expansion_at_action:
  "expansion_at construct_action n ts w is = expansion n ts (next_id w) is"
  by (induction "is" arbitrary: w) (simp_all add: add.assoc)

lemma py_int_examples:
  "py_int ''0'' = Some 0" "py_int ''2'' = Some 2" "py_int ''3'' = Some 3"
  "py_int ''-1'' = Some (- 1)" "py_int ''two'' = None"
  by (simp_all add: py_int_def py_strip_def py_isspace_def parse_unsigned_def digit_val_def)

lemma int_modelled_examples:
  "int_modelled ''0''" "int_modelled ''2''" "int_modelled ''3''"
  "int_modelled ''-1''" "int_modelled ''two''"
  by (simp_all add: int_modelled_def digit_val_def str_digits_check_threshold_def)

lemma py_range_examples:
  "py_range 0 = []" "py_range 1 = [0]" "py_range 2 = [0, 1]" "py_range 3 = [0, 1, 2]"
  by (simp_all add: py_range_def upt_conv_Cons)

section \<open>Running what the loop returns\<close>

lemma and_then_simps [simp]:
  "and_then None k = None"
  "and_then (Some (Inl err)) k = Some (Inl err)"
  "and_then (Some (Inr (w, []))) k = k w"
  by (simp_all add: and_then_def split: option.splits sum.splits prod.splits)

lemma and_then_assoc:
  "and_then (and_then r k1) k2 = and_then r (\<lambda>w. and_then (k1 w) k2)"
  by (simp add: and_then_def split: option.splits sum.splits prod.splits)

lemma and_then_Inr:
  "and_then r k = Some (Inr (w', h)) \<Longrightarrow>
   \<exists>w1 h1 h2. r = Some (Inr (w1, h1)) \<and> k w1 = Some (Inr (w', h2)) \<and> h = h1 @ h2"
  by (auto simp: and_then_def split: option.splits sum.splits prod.splits)

lemma visit_Suc_Cons:
  "visit exec (Suc f) (e # es) w =
     (case entity_execute exec e w of
        Inl err \<Rightarrow> Some (Inl err)
      | Inr (w1, r) \<Rightarrow>
          and_then (and_then (Some (Inr (w1, [(e, w)]))) (visit exec f (returned r)))
            (visit exec (Suc f) es))"
  by (simp add: and_then_def split: option.splits sum.splits prod.splits)

lemma visit_append: "visit exec f (es1 @ es2) w = and_then (visit exec f es1 w) (visit exec f es2)"
proof (induction es1 arbitrary: w)
  case Nil
  then show ?case by simp
next
  case (Cons e es1)
  show ?case
  proof (cases f)
    case 0
    then show ?thesis by simp
  next
    case (Suc f')
    have ih: "visit exec (Suc f') (es1 @ es2) =
          (\<lambda>w. and_then (visit exec (Suc f') es1 w) (visit exec (Suc f') es2))"
      using Cons.IH [unfolded Suc] by (intro ext)
    have "visit exec (Suc f') ((e # es1) @ es2) w =
          and_then (visit exec (Suc f') (e # es1) w) (visit exec (Suc f') es2)"
      by (simp only: append_Cons visit_Suc_Cons and_then_assoc ih split: sum.splits prod.splits)
         simp
    then show ?thesis
      by (simp only: Suc)
  qed
qed

lemma visit_append_Inr:
  assumes "visit exec f (es1 @ es2) w = Some (Inr (w', h))"
  shows "\<exists>w1 h1 h2. visit exec f es1 w = Some (Inr (w1, h1))
           \<and> visit exec f es2 w1 = Some (Inr (w', h2)) \<and> h = h1 @ h2"
  using assms by (auto simp: visit_append dest: and_then_Inr)

lemma visit_Cons_Inr:
  assumes "visit exec f (e # es) w = Some (Inr (w', h))"
  shows "\<exists>w1 h1 h2. visit exec f [e] w = Some (Inr (w1, h1))
           \<and> visit exec f es w1 = Some (Inr (w', h2)) \<and> h = h1 @ h2"
  using visit_append_Inr [of exec f "[e]" es w w' h] assms by simp

lemma visit_opaque_Inr:
  assumes "visit exec f [OpaqueFunction k op] w = Some (Inr (w', h))"
  shows "OpaqueFunction_execute op w = (Inr (w', None) :: error + world \<times> 'b entity list option)
         \<and> h = [(OpaqueFunction k op :: 'b entity, w)]"
proof (cases f)
  case 0
  with assms show ?thesis by simp
next
  case (Suc f')
  have none: "\<And>w1 r. OpaqueFunction_execute op w = (Inr (w1, r) :: error + world \<times> 'b entity list option) \<Longrightarrow> r = None"
    by (cases op)
      (auto simp: OpaqueFunction_execute_def ForLoop_push_locals_def ForLoop_set_index_local_def
        ForLoop_pop_locals_def split: sum.splits if_splits)
  from assms Suc show ?thesis
    by (auto simp: entity_execute_def returned_def dest!: none split: sum.splits option.splits prod.splits)
qed

lemma visit_instance_Inr:
  assumes "visit exec f [Instance k b] w = Some (Inr (w', h))"
  shows "\<exists>f' w1 r h1. f = Suc f' \<and> exec b w = Inr (w1, r)
           \<and> visit exec f' (returned r) w1 = Some (Inr (w', h1)) \<and> h = (Instance k b, w) # h1"
proof (cases f)
  case 0
  with assms show ?thesis by simp
next
  case (Suc f')
  with assms show ?thesis
    by (auto simp: entity_execute_def split: sum.splits option.splits prod.splits)
qed

lemma exec_push:
  "OpaqueFunction_execute push_locals w = Inr (w', r) \<Longrightarrow>
   w' = LaunchContext_push_locals w
   \<and> locals w' = Map.empty \<and> locals_stack w' = locals w # locals_stack w"
  by (auto simp: OpaqueFunction_execute_def ForLoop_push_locals_def LaunchContext_push_locals_def)

lemma exec_bind:
  "OpaqueFunction_execute (set_index_local n j) w = Inr (w', r) \<Longrightarrow>
   locals w' = (locals w)(n \<mapsto> py_str j) \<and> locals_stack w' = locals_stack w"
  by (auto simp: OpaqueFunction_execute_def ForLoop_set_index_local_def
      LaunchContext_extend_locals_def split: if_splits sum.splits)

lemma exec_pop:
  "OpaqueFunction_execute pop_locals w = Inr (w', r) \<Longrightarrow>
   locals_stack w = locals w' # locals_stack w'"
  by (auto simp: OpaqueFunction_execute_def ForLoop_pop_locals_def LaunchContext_pop_locals_def
      split: list.splits sum.splits)

lemma bindings_frames:
  "locals w1 = locals w2 \<Longrightarrow> locals_stack w1 = locals_stack w2 \<Longrightarrow>
   bindings name w1 = bindings name w2"
  by (simp add: bindings_def)

lemma bindings_stack:
  "locals_stack w1 = locals w # locals_stack w \<Longrightarrow>
   bindings name w1 = locals w1 name # bindings name w"
  by (simp add: bindings_def)

lemma suffix_bindings_stack:
  "locals_stack w1 = locals w # locals_stack w \<Longrightarrow>
   suffix (bindings name w) (bindings name w1)"
  by (simp add: bindings_stack suffix_ConsI)




lemma execute_action_loop:
  assumes "ForLoop_execute construct_action (ForLoop_init n ts) w = (Inr es, self, w')"
  shows "\<exists>num. es = expansion n ts (next_id w) (py_range num)
           \<and> locals w' = locals w \<and> locals_stack w' = locals_stack w"
  using assms
  by (auto simp: ForLoop_execute_eq for_range_accepting expansion_at_action ForLoop_init_def
      split: option.splits)

lemma body_scoped:
  assumes "\<forall>t \<in> set ts. scoped name t"
    and "visit action_execute f (instances_from k ts) w = Some (Inr (w', h))"
  shows "locals w' = locals w \<and> locals_stack w' = locals_stack w
       \<and> (\<forall>x \<in> set h. suffix (bindings name w) (bindings name (snd x)))"
  using assms
proof (induction ts arbitrary: k w h)
  case Nil
  then show ?case by simp
next
  case (Cons t ts)
  from Cons.prems(2) obtain w1 h1 h2
    where first: "visit action_execute f [Instance k t] w = Some (Inr (w1, h1))"
      and rest: "visit action_execute f (instances_from (Suc k) ts) w1 = Some (Inr (w', h2))"
      and h: "h = h1 @ h2"
    using visit_Cons_Inr [of action_execute f "Instance k t" "instances_from (Suc k) ts" w w' h]
    by auto
  from Cons.prems(1) have "scoped name t" by simp
  with first have t: "locals w1 = locals w" "locals_stack w1 = locals_stack w"
    "\<forall>x \<in> set h1. suffix (bindings name w) (bindings name (snd x))"
    unfolding scoped_def by blast+
  from Cons.prems(1) have "\<forall>t \<in> set ts. scoped name t" by simp
  from Cons.IH [OF this rest] have r: "locals w' = locals w1" "locals_stack w' = locals_stack w1"
    "\<forall>x \<in> set h2. suffix (bindings name w1) (bindings name (snd x))"
    by blast+
  have "bindings name w1 = bindings name w"
    using t(1,2) by (rule bindings_frames)
  with t r h show ?case
    by auto
qed

lemma iteration_scoped:
  assumes "\<forall>t \<in> set ts. scoped name t"
    and "visit action_execute f (iteration_entities n ts k i) w = Some (Inr (w', h))"
  shows "locals w' = locals w \<and> locals_stack w' = locals_stack w
       \<and> (\<forall>x \<in> set h. suffix (bindings name w) (bindings name (snd x)))"
proof -
  let ?push = "OpaqueFunction k push_locals :: action entity"
  let ?bind = "OpaqueFunction (k + 1) (set_index_local n i) :: action entity"
  let ?pop = "OpaqueFunction (k + 2 + length ts) pop_locals :: action entity"
  have split: "iteration_entities n ts k i = [?push] @ [?bind] @ instances_from (k + 2) ts @ [?pop]"
    by (simp add: iteration_entities_def)
  from assms(2) obtain w1 h1 ha
    where 1: "visit action_execute f [?push] w = Some (Inr (w1, h1))"
      and a: "visit action_execute f ([?bind] @ instances_from (k + 2) ts @ [?pop]) w1 = Some (Inr (w', ha))"
      and ha: "h = h1 @ ha"
    unfolding split by (blast dest: visit_append_Inr)
  from a obtain w2 h2 hb
    where 2: "visit action_execute f [?bind] w1 = Some (Inr (w2, h2))"
      and b: "visit action_execute f (instances_from (k + 2) ts @ [?pop]) w2 = Some (Inr (w', hb))"
      and hb: "ha = h2 @ hb"
    by (blast dest: visit_append_Inr)
  from b obtain w3 h3 h4
    where 3: "visit action_execute f (instances_from (k + 2) ts) w2 = Some (Inr (w3, h3))"
      and 4: "visit action_execute f [?pop] w3 = Some (Inr (w', h4))"
      and hc: "hb = h3 @ h4"
    by (blast dest: visit_append_Inr)
  from visit_opaque_Inr [OF 1] have w1: "locals_stack w1 = locals w # locals_stack w"
    and h1: "h1 = [(?push, w)]"
    by (auto dest: exec_push)
  from visit_opaque_Inr [OF 2] have w2: "locals_stack w2 = locals w # locals_stack w"
    and h2: "h2 = [(?bind, w1)]"
    using w1 by (auto dest: exec_bind)
  from body_scoped [OF assms(1) 3] have w3: "locals_stack w3 = locals w # locals_stack w"
    and seen: "\<forall>x \<in> set h3. suffix (bindings name w2) (bindings name (snd x))"
    using w2 by auto
  from visit_opaque_Inr [OF 4] have w': "locals w' = locals w" "locals_stack w' = locals_stack w"
    and h4: "h4 = [(?pop, w3)]"
    using w3 by (auto dest: exec_pop)
  have s1: "suffix (bindings name w) (bindings name w1)"
    using w1 by (rule suffix_bindings_stack)
  have s2: "suffix (bindings name w) (bindings name w2)"
    using w2 by (rule suffix_bindings_stack)
  have s3: "suffix (bindings name w) (bindings name w3)"
    using w3 by (rule suffix_bindings_stack)
  from seen s2 have "\<forall>x \<in> set h3. suffix (bindings name w) (bindings name (snd x))"
    by (auto intro: suffix_order.trans)
  with w' s1 s3 show ?thesis
    by (auto simp: ha hb hc h1 h2 h4)
qed

lemma expansion_scoped:
  assumes "\<forall>t \<in> set ts. scoped name t"
    and "visit action_execute f (expansion n ts k is) w = Some (Inr (w', h))"
  shows "locals w' = locals w \<and> locals_stack w' = locals_stack w
       \<and> (\<forall>x \<in> set h. suffix (bindings name w) (bindings name (snd x)))"
  using assms(2)
proof (induction "is" arbitrary: k w h)
  case Nil
  then show ?case by simp
next
  case (Cons i "is")
  from Cons.prems obtain w1 h1 h2
    where first: "visit action_execute f (iteration_entities n ts k i) w = Some (Inr (w1, h1))"
      and rest: "visit action_execute f (expansion n ts (k + length ts + 3) is) w1 = Some (Inr (w', h2))"
      and h: "h = h1 @ h2"
    by (auto dest: visit_append_Inr)
  from iteration_scoped [OF assms(1) first] have 1: "locals w1 = locals w" "locals_stack w1 = locals_stack w"
    "\<forall>x \<in> set h1. suffix (bindings name w) (bindings name (snd x))"
    by blast+
  from Cons.IH [OF rest] have 2: "locals w' = locals w1" "locals_stack w' = locals_stack w1"
    "\<forall>x \<in> set h2. suffix (bindings name w1) (bindings name (snd x))"
    by blast+
  have "bindings name w1 = bindings name w"
    using 1(1,2) by (rule bindings_frames)
  with 1 2 h show ?case
    by auto
qed

lemma all_scoped: "plain a \<Longrightarrow> scoped name a"
proof (induction a)
  case (LogInfo msg)
  show ?case
    unfolding scoped_def
  proof (intro allI impI)
    fix f k w w' h
    assume "visit action_execute f [Instance k (LogInfo msg)] w = Some (Inr (w', h))"
    from visit_instance_Inr [OF this] obtain f' w1 r h1
      where ex: "action_execute (LogInfo msg) w = Inr (w1, r)"
        and sub: "visit action_execute f' (returned r) w1 = Some (Inr (w', h1))"
        and h: "h = (Instance k (LogInfo msg), w) # h1"
      by blast
    from ex have "r = None" "locals w1 = locals w" "locals_stack w1 = locals_stack w"
      by (auto split: sum.splits)
    with sub h show "locals w' = locals w \<and> locals_stack w' = locals_stack w
       \<and> (\<forall>x \<in> set h. suffix (bindings name w) (bindings name (snd x)))"
      by (auto simp: returned_def)
  qed
next
  case (ForLoopAction n ts)
  from ForLoopAction.prems have "\<forall>t \<in> set ts. plain t"
    by (simp add: list_all_iff)
  with ForLoopAction.IH have ih: "\<forall>t \<in> set ts. scoped name t"
    by blast
  show ?case
    unfolding scoped_def
  proof (intro allI impI)
    fix f k w w' h
    assume "visit action_execute f [Instance k (ForLoopAction n ts)] w = Some (Inr (w', h))"
    from visit_instance_Inr [OF this] obtain f' w1 r h1
      where ex: "action_execute (ForLoopAction n ts) w = Inr (w1, r)"
        and sub: "visit action_execute f' (returned r) w1 = Some (Inr (w', h1))"
        and h: "h = (Instance k (ForLoopAction n ts), w) # h1"
      by blast
    from ex obtain self es where run: "ForLoop_execute construct_action (ForLoop_init n ts) w = (Inr es, self, w1)"
      and r: "r = Some es"
      by (auto split: sum.splits prod.splits)
    from execute_action_loop [OF run] obtain num
      where es: "es = expansion n ts (next_id w) (py_range num)"
        and w1: "locals w1 = locals w" "locals_stack w1 = locals_stack w"
      by blast
    from sub have "visit action_execute f' (expansion n ts (next_id w) (py_range num)) w1 = Some (Inr (w', h1))"
      by (simp add: r es returned_def)
    from expansion_scoped [OF ih this] have 2: "locals w' = locals w1" "locals_stack w' = locals_stack w1"
      "\<forall>x \<in> set h1. suffix (bindings name w1) (bindings name (snd x))"
      by blast+
    have same: "bindings name w1 = bindings name w"
      using w1 by (rule bindings_frames)
    from 2 w1 same h show "locals w' = locals w \<and> locals_stack w' = locals_stack w
       \<and> (\<forall>x \<in> set h. suffix (bindings name w) (bindings name (snd x)))"
      by auto
  qed
next
  case (OpaqueFunctionAction fn)
  then show ?case by simp
qed


lemma plain_body_keeps_stack:
  assumes "list_all plain ts"
    and "visit action_execute f (instances_from k ts) w = Some (Inr (w', h))"
  shows "locals_stack w' = locals_stack w"
proof -
  from assms(1) have "\<forall>t \<in> set ts. scoped [] t"
    by (simp add: list_all_iff all_scoped)
  from body_scoped [OF this assms(2)] show ?thesis
    by blast
qed

lemma depth_member: "t \<in> set ts \<Longrightarrow> depth t \<le> foldr (\<lambda>t m. max (depth t) m) ts 0"
  by (induction ts) auto

lemma visit_list_total:
  assumes "\<And>e w. e \<in> set es \<Longrightarrow> \<exists>r. visit exec f [e] w = Some r"
  shows "\<exists>r. visit exec f es w = Some r"
  using assms
proof (induction es arbitrary: w)
  case Nil
  then show ?case by simp
next
  case (Cons e es)
  have "visit exec f (e # es) w = and_then (visit exec f [e] w) (visit exec f es)"
    using visit_append [of exec f "[e]" es w] by simp
  moreover obtain r where "visit exec f [e] w = Some r"
    using Cons.prems [of e w] by auto
  moreover have "\<And>w1. \<exists>r. visit exec f es w1 = Some r"
    using Cons.IH Cons.prems by simp
  ultimately show ?case
    by (cases r) (auto simp: and_then_def split: option.splits sum.splits prod.splits, metis option.distinct(1))
qed

lemma visit_opaque_total:
  "\<exists>r. visit exec (Suc f) [OpaqueFunction k op] w = Some r"
  by (cases op)
     (auto simp: entity_execute_def OpaqueFunction_execute_def returned_def ForLoop_push_locals_def
        ForLoop_set_index_local_def ForLoop_pop_locals_def
        split: sum.splits option.splits prod.splits if_splits)

lemma visit_instance_total:
  "depth a < f \<Longrightarrow> \<exists>r. visit action_execute f [Instance k a] w = Some r"
proof (induction a arbitrary: f k w)
  case (LogInfo msg)
  then obtain f' where "f = Suc f'"
    by (cases f) auto
  then show ?case
    by (auto simp: entity_execute_def returned_def split: sum.splits)
next
  case (ForLoopAction n ts)
  let ?m = "foldr (\<lambda>t m. max (depth t) m) ts 0"
  from ForLoopAction.prems obtain f' where f: "f = Suc f'" and f': "?m < f'"
    by (cases f) auto
  then obtain f'' where f'': "f' = Suc f''"
    by (cases f') auto
  show ?case
  proof (cases "fst (ForLoop_execute construct_action (ForLoop_init n ts) w)")
    case (Inl err)
    then show ?thesis
      by (cases "ForLoop_execute construct_action (ForLoop_init n ts) w")
         (simp add: f entity_execute_def)
  next
    case (Inr es)
    then obtain self w1 where run: "ForLoop_execute construct_action (ForLoop_init n ts) w = (Inr es, self, w1)"
      by (cases "ForLoop_execute construct_action (ForLoop_init n ts) w") auto
    from execute_action_loop [OF run] obtain num where es: "es = expansion n ts (next_id w) (py_range num)"
      by blast
    have "\<exists>r. visit action_execute f' es w1 = Some r"
    proof (rule visit_list_total)
      fix e w2
      assume e: "e \<in> set es"
      show "\<exists>r. visit action_execute f' [e] w2 = Some r"
      proof (cases e)
        case (OpaqueFunction k' op)
        then show ?thesis
          using visit_opaque_total [of action_execute f'' k' op w2] by (simp add: f'')
      next
        case (Instance k' t)
        with e have "t \<in> set ts"
          unfolding es by (auto dest: instance_in_expansion)
        then have "depth t < f'"
          using depth_member [of t ts] f' by simp
        from ForLoopAction.IH [OF \<open>t \<in> set ts\<close> this] show ?thesis
          by (simp add: Instance)
      qed
    qed
    then obtain r where "visit action_execute f' es w1 = Some r"
      by blast
    with run show ?thesis
      by (cases r) (auto simp: f entity_execute_def returned_def split: prod.splits)
  qed
next
  case (OpaqueFunctionAction fn)
  then obtain f' where "f = Suc f'"
    by (cases f) auto
  then show ?case
    by (auto simp: entity_execute_def returned_def)
qed

lemma visit_iteration_total:
  assumes "\<forall>t \<in> set ts. depth t < f" and "0 < f"
  shows "\<exists>r. visit action_execute f (iteration_entities n ts k i) w = Some r"
proof (rule visit_list_total)
  fix e w2
  assume e: "e \<in> set (iteration_entities n ts k i)"
  obtain f' where f: "f = Suc f'"
    using assms(2) by (cases f) auto
  show "\<exists>r. visit action_execute f [e] w2 = Some r"
  proof (cases e)
    case (OpaqueFunction k' op)
    then show ?thesis
      using visit_opaque_total [of action_execute f' k' op w2] by (simp add: f)
  next
    case (Instance k' t)
    with e have "t \<in> set ts"
      by (auto dest: instance_in_iteration)
    with assms(1) show ?thesis
      by (simp add: Instance visit_instance_total)
  qed
qed

lemmas run_defs =
  iteration_entities_def entity_execute_def OpaqueFunction_execute_def returned_def
  ForLoop_push_locals_def ForLoop_pop_locals_def ForLoop_set_index_local_def
  LaunchContext_push_locals_def LaunchContext_pop_locals_def LaunchContext_extend_locals_def
  locals_contains_def locals_getattr_def lookup_local_def LocalSubstitution_perform_def
  logger_warning_def logger_info_def logger_debug_def
  ForLoop_execute_def LaunchConfiguration_perform_def ForLoop_init_def for_body_def
  new_OpaqueFunction_def construct_action_def py_int_examples py_range_examples
  py_str_def str_nat.simps digit_char_def resolved_in_def observed_def
  user_function_call_def lookup_after_def

section \<open>The claims\<close>

text \<open>
  C1. Let the launch configuration named by the action hold a string that \<^verbatim>\<open>int\<close>
  reads as the number \<open>num\<close>. The list \<open>ES\<close> is, for \<open>j = 0, ..., num - 1\<close> in this
  order: a push step, the step binding the index to \<open>j\<close>, one new instance per template
  in the declared order, each holding what the constructor stored when called at its turn,
  and a pop step right after the last instance. It has \<open>num\<close> push steps, \<open>num\<close> bind
  steps, \<open>num\<close> pop steps and \<open>num\<close> times the number of templates instances. When in
  every iteration every constructor accepts its arguments, \<^verbatim>\<open>execute\<close> returns \<open>ES\<close>;
  and whenever \<^verbatim>\<open>execute\<close> returns a list, the list is \<open>ES\<close>.
\<close>

theorem expand_sequence:
  assumes "launch_configurations w (launch_argument_name self) = Some s"
    and "int_modelled s"
    and "py_int s = Some num"
  shows "\<exists>ES. ES = concat (map (\<lambda>j. iteration_entities (launch_argument_name self)
                                (constructed construct (entities self)
                                   (turn_state (logger_debug (''for-loop length='' @ py_str num) w)
                                      (length (entities self)) j))
                                (next_id w + j * (length (entities self) + 3)) (int j))
                         [0..<nat num])
      \<and> length (filter is_push ES) = nat num
      \<and> length (filter is_bind ES) = nat num
      \<and> length (filter is_pop ES) = nat num
      \<and> length (filter is_instance ES) = nat num * length (entities self)
      \<and> ((\<forall>j<nat num. first_rejected construct (entities self)
                          (turn_state (logger_debug (''for-loop length='' @ py_str num) w)
                             (length (entities self)) j) = None) \<longrightarrow>
            (\<exists>w'. ForLoop_execute construct self w = (Inr ES, self, w')))
      \<and> (\<forall>es self' w'. ForLoop_execute construct self w = (Inr es, self', w') \<longrightarrow> es = ES)"
proof -
  let ?w1 = "logger_debug (''for-loop length='' @ py_str num) w"
  let ?m = "length (entities self)"
  let ?es = "expansion_at construct (launch_argument_name self) (entities self) ?w1 (py_range num)"
  have exec: "ForLoop_execute construct self w = for_range construct self (py_range num) [] ?w1"
    using assms by (simp add: ForLoop_execute_eq)
  have accepted: "(\<forall>j<nat num. first_rejected construct (entities self) (turn_state ?w1 ?m j) = None)
      \<longrightarrow> (\<exists>w'. ForLoop_execute construct self w = (Inr ?es, self, w'))"
    using for_range_accepting [of "py_range num" construct self ?w1 "[]"]
    by (simp add: exec)
  have returned: "\<forall>es self' w'. ForLoop_execute construct self w = (Inr es, self', w') \<longrightarrow> es = ?es"
  proof (intro allI impI)
    fix es self' w'
    assume "ForLoop_execute construct self w = (Inr es, self', w')"
    then have loop: "for_range construct self (py_range num) [] ?w1 = (Inr es, self', w')"
      by (simp add: exec)
    from for_range_accepting [OF for_range_Inr [OF loop], of "[]"]
    have "fst (for_range construct self (py_range num) [] ?w1) = Inr ?es"
      by simp
    with loop show "es = ?es"
      by simp
  qed
  have shape: "?es = concat (map (\<lambda>j. iteration_entities (launch_argument_name self)
                                (constructed construct (entities self) (turn_state ?w1 ?m j))
                                (next_id w + j * (length (entities self) + 3)) (int j))
                         [0..<nat num])"
    using expansion_at_range [of construct "launch_argument_name self" "entities self" ?w1 num]
    by simp
  have counts: "length (filter is_push ?es) = nat num" "length (filter is_bind ?es) = nat num"
    "length (filter is_pop ?es) = nat num"
    "length (filter is_instance ?es) = nat num * length (entities self)"
    by (simp_all only: count_expansion_at length_py_range)
  show ?thesis
    by (intro exI [of _ ?es] conjI shape counts accepted returned)
qed

theorem expand_sequence_witness:
  "\<exists>w'. ForLoop_execute accept_unless_bad (ForLoop_init ''num'' [''a'', ''b'']) (world_with_num ''2'')
        = (Inr [OpaqueFunction 0 push_locals, OpaqueFunction 1 (set_index_local ''num'' 0),
                Instance 2 ''a'', Instance 3 ''b'', OpaqueFunction 4 pop_locals,
                OpaqueFunction 5 push_locals, OpaqueFunction 6 (set_index_local ''num'' 1),
                Instance 7 ''a'', Instance 8 ''b'', OpaqueFunction 9 pop_locals],
           ForLoop_init ''num'' [''a'', ''b''], w')"
proof -
  let ?self = "ForLoop_init ''num'' [''a'', ''b'']"
  have h1: "launch_configurations (world_with_num ''2'') (launch_argument_name ?self) = Some ''2''"
    by (simp add: world_with_num_def ForLoop_init_def)
  have h3: "\<forall>j. first_rejected accept_unless_bad (entities ?self)
                 (turn_state (logger_debug (''for-loop length='' @ py_str 2) (world_with_num ''2''))
                    (length (entities ?self)) j) = None"
    by (simp add: first_rejected_def accept_unless_bad_def ForLoop_init_def find_None_iff
        less_Suc_eq)
  have c: "\<And>v. constructed accept_unless_bad [''a'', ''b''] v = [''a'', ''b'']"
    by (simp add: constructed_simps accept_unless_bad_def)
  have n: "next_id (world_with_num ''2'') = 0"
    by (simp add: world_with_num_def)
  have u: "[0..<nat 2] = [0, 1]"
    by (simp add: upt_conv_Cons)
  from expand_sequence [OF h1 int_modelled_examples(2) py_int_examples(2), of accept_unless_bad] h3
  show ?thesis
    unfolding n u
    by (simp add: iteration_entities_def c ForLoop_init_def eval_nat_numeral)
qed

text \<open>
  C2, as amended. When the launch configuration named by the action is absent,
  \<^verbatim>\<open>execute\<close> raises SubstitutionFailure; when its value is not a decimal integer for
  \<^verbatim>\<open>int\<close>, it raises ValueError. In both cases the state after the call is the state
  before it, whatever the constructors would do: no entity was made, nothing was logged,
  and no list is returned. A value that reads as a negative integer is not a failure:
  \<^verbatim>\<open>range\<close> is empty and the empty list is returned. What \<^verbatim>\<open>int\<close> does with a
  value is stated for the strings of \<open>int_modelled\<close>.
\<close>

theorem count_resolution_failure:
  "(launch_configurations w (launch_argument_name self) = None \<longrightarrow>
      ForLoop_execute construct self w
        = (Inl (SubstitutionFailure (launch_argument_name self)), self, w))
   \<and> (\<forall>s. launch_configurations w (launch_argument_name self) = Some s \<and> int_modelled s
        \<and> py_int s = None \<longrightarrow>
      ForLoop_execute construct self w = (Inl (ValueError s), self, w))
   \<and> (\<forall>s num. launch_configurations w (launch_argument_name self) = Some s \<and> int_modelled s
        \<and> py_int s = Some num \<and> num < 0 \<longrightarrow>
      ForLoop_execute construct self w
        = (Inr [], self, logger_debug (''for-loop length='' @ py_str num) w))"
  by (simp add: ForLoop_execute_eq py_range_def)

theorem count_resolution_failure_witness:
  "ForLoop_execute reject_all (ForLoop_init ''num'' [''a'']) world_without_num
     = (Inl (SubstitutionFailure ''num''), ForLoop_init ''num'' [''a''], world_without_num)
   \<and> ForLoop_execute reject_all (ForLoop_init ''num'' [''a'']) (world_with_num ''two'')
     = (Inl (ValueError ''two''), ForLoop_init ''num'' [''a''], world_with_num ''two'')
   \<and> ForLoop_execute reject_all (ForLoop_init ''num'' [''a'']) (world_with_num ''-1'')
     = (Inr [], ForLoop_init ''num'' [''a''],
        logger_debug ''for-loop length=-1'' (world_with_num ''-1''))"
proof -
  let ?self = "ForLoop_init ''num'' [''a'']"
  have n: "launch_argument_name ?self = ''num''"
    by (simp add: ForLoop_init_def)
  have a: "launch_configurations world_without_num (launch_argument_name ?self) = None"
    by (simp add: world_without_num_def)
  have b: "launch_configurations (world_with_num ''two'') (launch_argument_name ?self) = Some ''two''
           \<and> int_modelled ''two'' \<and> py_int ''two'' = None"
    by (simp add: world_with_num_def n py_int_examples int_modelled_examples)
  have c: "launch_configurations (world_with_num ''-1'') (launch_argument_name ?self) = Some ''-1''
           \<and> int_modelled ''-1'' \<and> py_int ''-1'' = Some (- 1) \<and> (- 1 :: int) < 0"
    by (simp add: world_with_num_def n py_int_examples int_modelled_examples)
  have s: "py_str (- 1) = ''-1''"
    by (simp add: py_str_def str_nat.simps digit_char_def)
  from count_resolution_failure [of world_without_num ?self reject_all] a
  have 1: "ForLoop_execute reject_all ?self world_without_num
             = (Inl (SubstitutionFailure ''num''), ?self, world_without_num)"
    by (simp add: n)
  from count_resolution_failure [of "world_with_num ''two''" ?self reject_all] b
  have 2: "ForLoop_execute reject_all ?self (world_with_num ''two'')
             = (Inl (ValueError ''two''), ?self, world_with_num ''two'')"
    by blast
  from count_resolution_failure [of "world_with_num ''-1''" ?self reject_all] c
  have 3: "ForLoop_execute reject_all ?self (world_with_num ''-1'')
     = (Inr [], ?self, logger_debug (''for-loop length='' @ py_str (- 1)) (world_with_num ''-1''))"
    by blast
  from 1 2 3 show ?thesis
    by (simp add: s)
qed

text \<open>
  C2 as stated fails: \<^verbatim>\<open>'-1'\<close> is not a non-negative integer, and \<^verbatim>\<open>execute\<close>
  returns the empty list instead of raising.
\<close>

theorem negative_count_counterexample:
  "int_modelled ''-1'' \<and> py_int ''-1'' = Some (- 1)
   \<and> ForLoop_execute accept_unless_bad (ForLoop_init ''num'' [''a'']) (world_with_num ''-1'')
     = (Inr [], ForLoop_init ''num'' [''a''],
        logger_debug ''for-loop length=-1'' (world_with_num ''-1''))"
  by (simp add: ForLoop_execute_def LaunchConfiguration_perform_def world_with_num_def
      ForLoop_init_def py_int_examples int_modelled_examples py_range_def py_str_def
      str_nat.simps digit_char_def)




text \<open>
  C4, as amended. For iteration \<open>i\<close> of a loop over \<open>name\<close>, whatever the types of
  the entities in its body, provided the run of the body, begun in the state the bind step
  leaves, ends with the frames below the current one as it found them (what the body
  pushed it has popped, and nothing else): when the run of the iteration's entities, from
  the push step to the pop step, has finished, a lookup of \<open>name\<close> gives what it gave
  before the push step, a value or nothing; indeed all frames are as they were.
\<close>

theorem scope_isolation:
  fixes exec :: "'b \<Rightarrow> world \<Rightarrow> error + (world \<times> 'b entity list option)"
  assumes "visit exec fuel (iteration_entities name bs k i) w = Some (Inr (w', h))"
    and "\<forall>wb w3 h3.
           ForLoop_set_index_local (LaunchContext_push_locals w) name i
             = Inr (wb, None :: 'b entity list option)
           \<and> visit exec fuel (instances_from (k + 2) bs) wb = Some (Inr (w3, h3))
           \<longrightarrow> locals_stack w3 = locals_stack wb"
  shows "lookup_local w' name = lookup_local w name
       \<and> locals w' = locals w \<and> locals_stack w' = locals_stack w"
proof -
  let ?push = "OpaqueFunction k push_locals :: 'b entity"
  let ?bind = "OpaqueFunction (k + 1) (set_index_local name i) :: 'b entity"
  let ?pop = "OpaqueFunction (k + 2 + length bs) pop_locals :: 'b entity"
  have split: "iteration_entities name bs k i = [?push] @ [?bind] @ instances_from (k + 2) bs @ [?pop]"
    by (simp add: iteration_entities_def)
  from assms(1) obtain w1 h1 ha
    where 1: "visit exec fuel [?push] w = Some (Inr (w1, h1))"
      and a: "visit exec fuel ([?bind] @ instances_from (k + 2) bs @ [?pop]) w1 = Some (Inr (w', ha))"
    unfolding split by (blast dest: visit_append_Inr)
  from a obtain w2 h2 hb
    where 2: "visit exec fuel [?bind] w1 = Some (Inr (w2, h2))"
      and b: "visit exec fuel (instances_from (k + 2) bs @ [?pop]) w2 = Some (Inr (w', hb))"
    by (blast dest: visit_append_Inr)
  from b obtain w3 h3 h4
    where 3: "visit exec fuel (instances_from (k + 2) bs) w2 = Some (Inr (w3, h3))"
      and 4: "visit exec fuel [?pop] w3 = Some (Inr (w', h4))"
    by (blast dest: visit_append_Inr)
  from visit_opaque_Inr [OF 1] have w1: "w1 = LaunchContext_push_locals w"
    "locals_stack w1 = locals w # locals_stack w"
    by (auto dest: exec_push)
  from visit_opaque_Inr [OF 2]
  have bind: "OpaqueFunction_execute (set_index_local name i) w1
                = (Inr (w2, None) :: error + world \<times> 'b entity list option)"
    by simp
  then have w2: "locals_stack w2 = locals w # locals_stack w"
    using w1 by (auto dest: exec_bind)
  from bind have "ForLoop_set_index_local (LaunchContext_push_locals w) name i
                    = Inr (w2, None :: 'b entity list option)"
    by (simp add: OpaqueFunction_execute_def w1)
  with assms(2) 3 have w3: "locals_stack w3 = locals w # locals_stack w"
    using w2 by auto
  from visit_opaque_Inr [OF 4] have "locals w' = locals w" "locals_stack w' = locals_stack w"
    using w3 by (auto dest: exec_pop)
  then show ?thesis
    by (simp add: lookup_local_def)
qed

theorem scope_isolation_witness:
  "\<exists>w' h.
     visit action_execute (Suc (Suc (Suc 0)))
       (iteration_entities ''num''
          [ForLoopAction ''num'' [LogInfo [IndexSubstitution ''num'']]] 0 1)
       (world_with_outer ''2'' ''outer'')
       = Some (Inr (w', h))
     \<and> lookup_local w' ''num'' = Some ''outer''
     \<and> lookup_local (world_with_outer ''2'' ''outer'') ''num'' = Some ''outer''
     \<and> locals_stack w' = []
     \<and> logged w' = [(WARNING, ''local variable already exists: num=outer''),
                     (DEBUG, ''for-loop length=2''),
                     (WARNING, ''local variable already exists: num=1''), (INFO, ''0''),
                     (WARNING, ''local variable already exists: num=1''), (INFO, ''1'')]"
proof -
  let ?ts = "[ForLoopAction ''num'' [LogInfo [IndexSubstitution ''num'']]]"
  let ?w = "world_with_outer ''2'' ''outer''"
  let ?run = "visit action_execute (Suc (Suc (Suc 0))) (iteration_entities ''num'' ?ts 0 1) ?w"
  have "\<exists>w' h. ?run = Some (Inr (w', h))
     \<and> logged w' = [(WARNING, ''local variable already exists: num=outer''),
                     (DEBUG, ''for-loop length=2''),
                     (WARNING, ''local variable already exists: num=1''), (INFO, ''0''),
                     (WARNING, ''local variable already exists: num=1''), (INFO, ''1'')]"
    by (simp add: run_defs world_with_outer_def)
  then obtain w' h where run: "?run = Some (Inr (w', h))"
    and lg: "logged w' = [(WARNING, ''local variable already exists: num=outer''),
                     (DEBUG, ''for-loop length=2''),
                     (WARNING, ''local variable already exists: num=1''), (INFO, ''0''),
                     (WARNING, ''local variable already exists: num=1''), (INFO, ''1'')]"
    by blast
  have pl: "list_all plain ?ts"
    by simp
  have body: "\<forall>wb w3 h3.
           ForLoop_set_index_local (LaunchContext_push_locals ?w) ''num'' 1
             = Inr (wb, None :: action entity list option)
           \<and> visit action_execute (Suc (Suc (Suc 0))) (instances_from (0 + 2) ?ts) wb
               = Some (Inr (w3, h3))
           \<longrightarrow> locals_stack w3 = locals_stack wb"
  proof (intro allI impI)
    fix wb w3 h3
    assume "ForLoop_set_index_local (LaunchContext_push_locals ?w) ''num'' 1
             = Inr (wb, None :: action entity list option)
           \<and> visit action_execute (Suc (Suc (Suc 0))) (instances_from (0 + 2) ?ts) wb
               = Some (Inr (w3, h3))"
    then have "visit action_execute (Suc (Suc (Suc 0))) (instances_from (0 + 2) ?ts) wb
               = Some (Inr (w3, h3))"
      by blast
    from plain_body_keeps_stack [OF pl this] show "locals_stack w3 = locals_stack wb" .
  qed
  have before: "lookup_local ?w ''num'' = Some ''outer''" "locals_stack ?w = []"
    by (simp_all add: lookup_local_def world_with_outer_def)
  from scope_isolation [OF run body] before run lg show ?thesis
    by simp
qed

text \<open>
  C4 as stated fails: a function in the body that pushes a frame and leaves it makes the
  pop step of iteration 7 discard that frame instead of the iteration's own, so the index,
  which had no binding before the push step, stays bound to \<^verbatim>\<open>'7'\<close> after the pop
  step.
\<close>

theorem leftover_frame_counterexample:
  "lookup_local (world_with_num ''8'') ''num'' = None
   \<and> lookup_after ''num''
       (visit action_execute (Suc 0)
          (iteration_entities ''num'' [OpaqueFunctionAction push_frame] 0 7)
          (world_with_num ''8''))
     = Some (Some ''7'')"
  by (simp add: run_defs world_with_num_def)

text \<open>
  C5. What \<^verbatim>\<open>execute\<close> returns holds no template: every element is an object made
  during the call (its identity is not below the allocator's value at the call and below
  its value after it), the identities are pairwise distinct, so no two iterations share
  an instance and none stands in the list twice, and every instance holds the attributes
  the constructor of one of the templates stored, called when the allocator stood at the
  identity the instance has.
\<close>

theorem fresh_instances:
  assumes "ForLoop_execute construct self w = (Inr es, self', w')"
  shows "distinct (map entity_id es)
       \<and> (\<forall>e \<in> set es. next_id w \<le> entity_id e \<and> entity_id e < next_id w')
       \<and> (\<forall>e \<in> set es. is_instance e \<longrightarrow>
            (\<exists>k t b. t \<in> set (entities self) \<and> construct t (w'\<lparr>next_id := k\<rparr>) = Inr b
                     \<and> e = Instance k b))"
proof -
  from assms obtain s num where conf: "launch_configurations w (launch_argument_name self) = Some s"
    and num: "py_int s = Some num"
    by (auto simp: ForLoop_execute_eq split: option.splits)
  let ?w1 = "logger_debug (''for-loop length='' @ py_str num) w"
  let ?m = "length (entities self)"
  from assms conf num have loop: "for_range construct self (py_range num) [] ?w1 = (Inr es, self', w')"
    by (simp add: ForLoop_execute_eq)
  from for_range_Inr [OF loop]
  have acc: "\<forall>j<length (py_range num). first_rejected construct (entities self) (turn_state ?w1 ?m j) = None" .
  from for_range_accepting [OF acc, of "[]"]
  have "fst (for_range construct self (py_range num) [] ?w1)
          = Inr (expansion_at construct (launch_argument_name self) (entities self) ?w1 (py_range num))"
    and "snd (snd (for_range construct self (py_range num) [] ?w1))
          = ?w1\<lparr>next_id := next_id w + nat num * (?m + 3)\<rparr>"
    by simp_all
  with loop
  have es: "es = expansion_at construct (launch_argument_name self) (entities self) ?w1 (py_range num)"
    and w': "w' = ?w1\<lparr>next_id := next_id w + nat num * (?m + 3)\<rparr>"
    by simp_all
  have n': "next_id w' = next_id w + nat num * (?m + 3)"
    by (simp add: w')
  have ids: "map entity_id es = [next_id w..<next_id w']"
    by (simp add: es n' ids_expansion_at)
  have "distinct (map entity_id es)"
    by (simp add: ids)
  moreover have "\<forall>e \<in> set es. next_id w \<le> entity_id e \<and> entity_id e < next_id w'"
  proof
    fix e assume "e \<in> set es"
    then have "entity_id e \<in> set (map entity_id es)" by simp
    then show "next_id w \<le> entity_id e \<and> entity_id e < next_id w'"
      unfolding ids by simp
  qed
  moreover have "\<forall>e \<in> set es. is_instance e \<longrightarrow>
          (\<exists>k t b. t \<in> set (entities self) \<and> construct t (w'\<lparr>next_id := k\<rparr>) = Inr b
                   \<and> e = Instance k b)"
  proof (intro ballI impI)
    fix e assume "e \<in> set es" "is_instance e"
    with instance_in_expansion_at [OF acc, of e "launch_argument_name self"]
    have "\<exists>k t b. t \<in> set (entities self) \<and> construct t (?w1\<lparr>next_id := k\<rparr>) = Inr b
                   \<and> e = Instance k b"
      by (simp add: es)
    then show "\<exists>k t b. t \<in> set (entities self) \<and> construct t (w'\<lparr>next_id := k\<rparr>) = Inr b
                   \<and> e = Instance k b"
      by (simp add: w')
  qed
  ultimately show ?thesis by blast
qed

theorem fresh_instances_witness:
  "\<exists>es self' w'.
     ForLoop_execute accept_unless_bad (ForLoop_init ''num'' [''a'']) (world_with_num ''2'')
       = (Inr es, self', w')
     \<and> es = [OpaqueFunction 0 push_locals, OpaqueFunction 1 (set_index_local ''num'' 0),
             Instance 2 ''a'', OpaqueFunction 3 pop_locals,
             OpaqueFunction 4 push_locals, OpaqueFunction 5 (set_index_local ''num'' 1),
             Instance 6 ''a'', OpaqueFunction 7 pop_locals]
     \<and> distinct (map entity_id es)
     \<and> list_all (\<lambda>e. 0 \<le> entity_id e \<and> entity_id e < next_id w') es"
proof -
  let ?self = "ForLoop_init ''num'' [''a'']"
  let ?es = "[OpaqueFunction 0 push_locals, OpaqueFunction 1 (set_index_local ''num'' 0),
             Instance 2 ''a'', OpaqueFunction 3 pop_locals,
             OpaqueFunction 4 push_locals, OpaqueFunction 5 (set_index_local ''num'' 1),
             Instance 6 ''a'', OpaqueFunction 7 pop_locals] :: string entity list"
  have u: "py_range 2 = [0, 1]"
    by (simp add: py_range_def upt_conv_Cons)
  have run: "ForLoop_execute accept_unless_bad ?self (world_with_num ''2'')
     = (Inr ?es, ?self, (logger_debug ''for-loop length=2'' (world_with_num ''2''))\<lparr>next_id := 8\<rparr>)"
    by (simp add: ForLoop_execute_def LaunchConfiguration_perform_def world_with_num_def
        ForLoop_init_def py_int_examples u for_body_def new_OpaqueFunction_def
        accept_unless_bad_def logger_debug_def py_str_def str_nat.simps digit_char_def)
  from fresh_instances [OF run] run show ?thesis
    by (simp add: world_with_num_def list_all_iff)
qed

text \<open>
  C6. The bind step of an iteration, executed right after that iteration's push from a
  state \<open>w\<close>: it never fails; it looks the name up before binding, and writes exactly one
  warning when the name has a binding visible in \<open>w\<close> and no record otherwise; after it
  the name resolves to \<^verbatim>\<open>str(i)\<close>, while the enclosing frames still hold the outer
  binding.
\<close>

theorem shadow_warning:
  "\<exists>w'. ForLoop_set_index_local (LaunchContext_push_locals w) name i
           = (Inr (w', None) :: error + world \<times> 'b entity list option)
      \<and> logged w' = logged w @
           (case lookup_local w name of
              None \<Rightarrow> []
            | Some v \<Rightarrow> [(WARNING, ''local variable already exists: '' @ name @ ''='' @ v)])
      \<and> lookup_local w' name = Some (py_str i)
      \<and> locals_stack w' = locals w # locals_stack w
      \<and> lookup_frames (locals_stack w') name = lookup_local w name"
  by (simp add: ForLoop_set_index_local_def LaunchContext_push_locals_def locals_contains_def
      locals_getattr_def lookup_local_def LaunchContext_extend_locals_def logger_warning_def
      split: option.splits)

theorem shadow_warning_witness:
  "\<exists>w'. ForLoop_set_index_local (LaunchContext_push_locals (world_with_outer ''2'' ''outer'')) ''num'' 1
           = (Inr (w', None) :: error + world \<times> unit entity list option)
      \<and> logged w' = [(WARNING, ''local variable already exists: num=outer'')]
      \<and> lookup_local w' ''num'' = Some ''1''
      \<and> lookup_frames (locals_stack w') ''num'' = Some ''outer''"
proof -
  have "lookup_local (world_with_outer ''2'' ''outer'') ''num'' = Some ''outer''"
    "logged (world_with_outer ''2'' ''outer'') = []" "py_str 1 = ''1''"
    by (simp_all add: lookup_local_def world_with_outer_def py_str_def str_nat.simps digit_char_def)
  with shadow_warning [of "world_with_outer ''2'' ''outer''" "''num''" 1, where 'b = unit]
  show ?thesis
    by auto
qed

text \<open>
  C7. When the count reads as 0, \<^verbatim>\<open>execute\<close> returns the empty list and raises
  nothing, whatever the templates are and whatever their constructors would do; the only
  effect is the debug record.
\<close>

theorem zero_iterations:
  assumes "launch_configurations w (launch_argument_name self) = Some s"
    and "int_modelled s"
    and "py_int s = Some 0"
  shows "ForLoop_execute construct self w = (Inr [], self, logger_debug ''for-loop length=0'' w)"
  using assms by (simp add: ForLoop_execute_eq py_range_def)

theorem zero_iterations_witness:
  "ForLoop_execute accept_unless_bad (ForLoop_init ''num'' [''a'', ''bad'']) (world_with_num ''0'')
     = (Inr [], ForLoop_init ''num'' [''a'', ''bad''],
        logger_debug ''for-loop length=0'' (world_with_num ''0''))"
proof -
  have h1: "launch_configurations (world_with_num ''0'')
              (launch_argument_name (ForLoop_init ''num'' [''a'', ''bad''])) = Some ''0''"
    by (simp add: world_with_num_def ForLoop_init_def)
  show ?thesis
    by (rule zero_iterations [OF h1 int_modelled_examples(1) py_int_examples(1)])
qed

text \<open>
  C8. When in iteration \<open>k\<close> of the loop, the iterations before it having gone through,
  the constructor of the template at position \<open>n\<close> is the first to reject its
  arguments, \<^verbatim>\<open>execute\<close> raises that constructor's error and returns no list, also
  no partial one. The state it leaves tells what had been made by then: the entities of
  the \<open>k\<close> iterations before, the push step and the bind step of iteration \<open>k\<close> and
  its \<open>n\<close> instances before the rejected template, and nothing after: no later template
  is instantiated and no later iteration expanded.
\<close>

theorem construction_error_aborts:
  assumes "launch_configurations w (launch_argument_name self) = Some s"
    and "int_modelled s"
    and "py_int s = Some num"
    and "k < nat num"
    and "\<forall>j<k. first_rejected construct (entities self)
                 (turn_state (logger_debug (''for-loop length='' @ py_str num) w)
                    (length (entities self)) j) = None"
    and "first_rejected construct (entities self)
           (turn_state (logger_debug (''for-loop length='' @ py_str num) w)
              (length (entities self)) k) = Some n"
  shows "n < length (entities self)
       \<and> (\<exists>msg.
            construct (entities self ! n)
              ((logger_debug (''for-loop length='' @ py_str num) w)
                 \<lparr>next_id := next_id w + k * (length (entities self) + 3) + 2 + n\<rparr>) = Inl msg
            \<and> ForLoop_execute construct self w
                = (Inl (EntityConstructionError msg), self,
                   (logger_debug (''for-loop length='' @ py_str num) w)
                     \<lparr>next_id := next_id w + k * (length (entities self) + 3) + 2 + n\<rparr>))"
proof -
  let ?w1 = "logger_debug (''for-loop length='' @ py_str num) w"
  let ?m = "length (entities self)"
  let ?wn = "?w1\<lparr>next_id := next_id w + k * (?m + 3) + 2 + n\<rparr>"
  from assms(6) have n: "n < ?m" and rej: "isl (construct (entities self ! n) ?wn)"
    by (auto simp: first_rejected_def find_Some_iff turn_state_def)
  then obtain msg where msg: "construct (entities self ! n) ?wn = Inl msg"
    by (cases "construct (entities self ! n) ?wn") auto
  have k: "k < length (py_range num)"
    using assms(4) by simp
  from for_range_rejecting [OF k assms(5,6), of "[]"] assms(1,3) msg
  have "ForLoop_execute construct self w = (Inl (EntityConstructionError msg), self, ?wn)"
    by (simp add: ForLoop_execute_eq)
  with n msg show ?thesis
    by blast
qed

theorem construction_error_aborts_witness:
  "ForLoop_execute (accept_below 5) (ForLoop_init ''num'' [''a'']) (world_with_num ''3'')
     = (Inl (EntityConstructionError ''too many objects''), ForLoop_init ''num'' [''a''],
        (logger_debug ''for-loop length=3'' (world_with_num ''3''))\<lparr>next_id := 6\<rparr>)"
proof -
  let ?self = "ForLoop_init ''num'' [''a'']"
  let ?w = "world_with_num ''3''"
  let ?w1 = "logger_debug (''for-loop length='' @ py_str 3) ?w"
  have h1: "launch_configurations ?w (launch_argument_name ?self) = Some ''3''"
    by (simp add: world_with_num_def ForLoop_init_def)
  have h4: "Suc 0 < nat 3"
    by simp
  have h5: "\<forall>j<Suc 0. first_rejected (accept_below 5) (entities ?self)
                         (turn_state ?w1 (length (entities ?self)) j) = None"
    by (simp add: first_rejected_def accept_below_def ForLoop_init_def turn_state_def
        world_with_num_def)
  have h6: "first_rejected (accept_below 5) (entities ?self)
              (turn_state ?w1 (length (entities ?self)) (Suc 0)) = Some 0"
    by (simp add: first_rejected_def accept_below_def ForLoop_init_def turn_state_def
        world_with_num_def)
  have three: "py_str 3 = ''3''"
    by (simp add: py_str_def str_nat.simps digit_char_def)
  from construction_error_aborts [OF h1 int_modelled_examples(3) py_int_examples(3) h4 h5 h6]
  show ?thesis
    by (auto simp: accept_below_def ForLoop_init_def world_with_num_def three)
qed

text \<open>
  C9. Every call of \<^verbatim>\<open>execute\<close>, returning or raising, leaves the action as the
  constructor made it: the same argument name and the same templates; and so does every
  single turn of its loop, so nothing is carried in the action from one iteration to the
  next.
\<close>

theorem expander_unchanged:
  "fst (snd (ForLoop_execute construct (ForLoop_init name ents) w)) = ForLoop_init name ents
   \<and> launch_argument_name (fst (snd (ForLoop_execute construct (ForLoop_init name ents) w))) = name
   \<and> entities (fst (snd (ForLoop_execute construct (ForLoop_init name ents) w))) = ents
   \<and> fst (snd (for_body construct self i acc w1)) = self"
proof -
  have "fst (snd (ForLoop_execute construct (ForLoop_init name ents) w)) = ForLoop_init name ents"
    by (simp add: ForLoop_execute_eq for_range_self split: option.splits)
  then show ?thesis
    by (simp add: for_body_self) (simp add: ForLoop_init_def)
qed

theorem expander_unchanged_witness:
  "fst (snd (ForLoop_execute accept_unless_bad (ForLoop_init ''num'' [''a'', ''bad''])
               (world_with_num ''2'')))
     = ForLoop_init ''num'' [''a'', ''bad'']
   \<and> fst (ForLoop_execute accept_unless_bad (ForLoop_init ''num'' [''a'', ''bad''])
               (world_with_num ''2''))
     = Inl (EntityConstructionError ''unexpected keyword argument'')"
proof -
  have "fst (ForLoop_execute accept_unless_bad (ForLoop_init ''num'' [''a'', ''bad''])
               (world_with_num ''2''))
     = Inl (EntityConstructionError ''unexpected keyword argument'')"
    by (simp add: ForLoop_execute_def LaunchConfiguration_perform_def world_with_num_def
        ForLoop_init_def py_int_examples py_range_examples for_body_def new_OpaqueFunction_def
        accept_unless_bad_def)
  with expander_unchanged [of accept_unless_bad "''num''" "[''a'', ''bad'']" "world_with_num ''2''"]
  show ?thesis
    by simp
qed

text \<open>
  C10. Each of the three steps returns \<^verbatim>\<open>None\<close>, no further entities: the push step
  and the bind step always, the pop step whenever it does not raise (it raises only when
  no pushed frame is left).
\<close>

theorem scope_steps_return_none:
  "ForLoop_push_locals w = Inr (LaunchContext_push_locals w, None)
   \<and> (\<exists>w'. ForLoop_set_index_local w name i = Inr (w', None))
   \<and> (case ForLoop_pop_locals w of Inl e \<Rightarrow> locals_stack w = [] | Inr (w', r) \<Rightarrow> r = None)"
  by (auto simp: ForLoop_push_locals_def ForLoop_set_index_local_def ForLoop_pop_locals_def
      LaunchContext_pop_locals_def locals_contains_def locals_getattr_def
      split: option.splits list.splits)

section \<open>Further properties\<close>

text \<open>
  A run of an iteration's entities always ends, finished or with an error, when the fuel
  is positive and above the depth of every template: the fuel never cuts short a run of
  log actions, loops and functions that is given enough of it.
\<close>

theorem run_ends:
  assumes "\<forall>t \<in> set ts. depth t < fuel" and "0 < fuel"
  shows "\<exists>r. visit action_execute fuel (iteration_entities n ts k i) w = Some r"
  using assms by (rule visit_iteration_total)

theorem run_ends_witness:
  "\<exists>r. visit action_execute (Suc (Suc 0))
          (iteration_entities ''num'' [ForLoopAction ''other'' [LogInfo [IndexSubstitution ''num'']]] 0 0)
          (world_with_num ''2'') = Some r"
proof -
  have "\<forall>t \<in> set [ForLoopAction ''other'' [LogInfo [IndexSubstitution ''num'']]].
          depth t < Suc (Suc 0)"
    by simp
  from run_ends [OF this] show ?thesis
    by simp
qed

text \<open>
  Scope isolation without a proviso for bodies of log actions and loops, also loops over
  the same name: a finished run of an iteration's entities leaves all frames as they were
  before its push step.
\<close>

theorem scope_isolation_plain:
  assumes "list_all plain ts"
    and "visit action_execute fuel (iteration_entities name ts k i) w = Some (Inr (w', h))"
  shows "lookup_local w' name = lookup_local w name
       \<and> locals w' = locals w \<and> locals_stack w' = locals_stack w"
proof -
  from assms(1) have "\<forall>t \<in> set ts. scoped name t"
    by (simp add: list_all_iff all_scoped)
  from iteration_scoped [OF this assms(2)]
  have "locals w' = locals w" "locals_stack w' = locals_stack w"
    by blast+
  then show ?thesis
    by (simp add: lookup_local_def)
qed

theorem scope_isolation_plain_witness:
  "\<exists>w' h.
     visit action_execute (Suc (Suc 0))
       (iteration_entities ''num'' [LogInfo [IndexSubstitution ''num'']] 0 1)
       (world_with_outer ''2'' ''outer'')
       = Some (Inr (w', h))
     \<and> lookup_local w' ''num'' = Some ''outer''
     \<and> logged w' = [(WARNING, ''local variable already exists: num=outer''), (INFO, ''1'')]"
proof -
  let ?run = "visit action_execute (Suc (Suc 0))
       (iteration_entities ''num'' [LogInfo [IndexSubstitution ''num'']] 0 1)
       (world_with_outer ''2'' ''outer'')"
  have "\<exists>w' h. ?run = Some (Inr (w', h))
     \<and> logged w' = [(WARNING, ''local variable already exists: num=outer''), (INFO, ''1'')]"
    by (simp add: run_defs world_with_outer_def)
  then obtain w' h where run: "?run = Some (Inr (w', h))"
    and lg: "logged w' = [(WARNING, ''local variable already exists: num=outer''), (INFO, ''1'')]"
    by blast
  have pl: "list_all plain [LogInfo [IndexSubstitution ''num'']]"
    by simp
  have before: "lookup_local (world_with_outer ''2'' ''outer'') ''num'' = Some ''outer''"
    by (simp add: lookup_local_def world_with_outer_def)
  from scope_isolation_plain [OF pl run] before run lg show ?thesis
    by simp
qed

text \<open>
  How the count is read, on examples. White space around the digits is stripped, a sign,
  leading zeros and single underscores between digits are accepted. A separator 0x1C to
  0x1F beside the digits, a doubled, leading or trailing underscore, two signs, white
  space inside, and a value without a digit make \<^verbatim>\<open>int\<close> raise, and so
  \<^verbatim>\<open>execute\<close>.
\<close>

theorem count_reading_examples:
  "py_int [CHR 0x09, CHR 0x0B, CHR 0x0C, CHR ''+'', CHR ''1'', CHR ''_'', CHR ''0'',
           CHR 0x0D, CHR 0x0A, CHR 0x20] = Some 10
   \<and> py_int ''007'' = Some 7 \<and> py_int ''-0'' = Some 0 \<and> py_int ''0_0'' = Some 0
   \<and> py_int [CHR 0x1F, CHR ''2''] = None \<and> py_int [CHR ''2'', CHR 0x1C] = None
   \<and> py_int [CHR 0x1D, CHR ''2''] = None \<and> py_int [CHR ''2'', CHR 0x1E] = None
   \<and> py_int ''1__0'' = None \<and> py_int ''_1'' = None \<and> py_int ''1_'' = None
   \<and> py_int ''+-1'' = None \<and> py_int '''' = None \<and> py_int '' - 1'' = None
   \<and> py_int ''+'' = None \<and> py_int ''1 2'' = None
   \<and> ForLoop_execute accept_unless_bad (ForLoop_init ''num'' [''a''])
         (world_with_num [CHR 0x1F, CHR ''2''])
       = (Inl (ValueError [CHR 0x1F, CHR ''2'']), ForLoop_init ''num'' [''a''],
          world_with_num [CHR 0x1F, CHR ''2''])"
  by (simp add: py_int_def py_strip_def py_isspace_def parse_unsigned_def digit_val_def
      ForLoop_execute_def LaunchConfiguration_perform_def world_with_num_def ForLoop_init_def)

text \<open>
  The example of the action's documentation with a count of 3: the log actions of the
  three iterations emit \<^verbatim>\<open>i=0\<close>, \<^verbatim>\<open>i=1\<close>, \<^verbatim>\<open>i=2\<close>, in this order. The loop
  itself runs where the index is not bound; its three log actions see 0, 1 and 2.
\<close>

theorem three_iterations_example:
  "observed ''num''
     (visit action_execute (Suc (Suc 0))
        [Instance 0 (ForLoopAction ''num'' [LogInfo [TextSubstitution ''i='', IndexSubstitution ''num'']])]
        (world_with_num ''3''))
   = Some ([(DEBUG, ''for-loop length=3''), (INFO, ''i=0''), (INFO, ''i=1''), (INFO, ''i=2'')],
           [Inl (AttributeError ''num''), Inr ''0'', Inr ''1'', Inr ''2''])"
  by (simp add: run_defs world_with_num_def)

text \<open>With a count of 0 the loop emits nothing but its debug record.\<close>

theorem no_iterations_example:
  "observed ''num''
     (visit action_execute (Suc (Suc 0))
        [Instance 0 (ForLoopAction ''num'' [LogInfo [TextSubstitution ''i='', IndexSubstitution ''num'']])]
        (world_with_num ''0''))
   = Some ([(DEBUG, ''for-loop length=0'')], [Inl (AttributeError ''num'')])"
  by (simp add: run_defs world_with_num_def)

end
